theory Spec2Isabelle
  imports Main "HOL-Library.Sublist" "HOL-Library.Word"
begin

section \<open>Python values and errors\<close>

text \<open>
  Exceptions of the Python source are values of \<open>py_error\<close>; a function that can raise
  returns \<open>py_error + 'a\<close>, with \<open>Inl\<close> for the exception.
\<close>

datatype py_error =
  ValueError | NameError | IndexError | KeyError | TypeError | AttributeError
  | RuntimeError | OperationalError | FileNotFoundError | SysExit

text \<open>
  \<open>check_all_exons_novel\<close> returns the integer 0 on one path and a boolean on the
  others, so its result is a tagged Python value with Python's truthiness.
\<close>

datatype pyval = PyInt int | PyBool bool

fun truthy :: "pyval \<Rightarrow> bool" where
  "truthy (PyInt n) = (n \<noteq> 0)"
| "truthy (PyBool b) = b"

section \<open>Edge-novelty predicates\<close>

text \<open>The slices \<open>novelty[::2]\<close> and \<open>novelty[1::2]\<close>.\<close>

fun slice_even :: "'a list \<Rightarrow> 'a list" where
  "slice_even [] = []"
| "slice_even [x] = [x]"
| "slice_even (x # y # xs) = x # slice_even xs"

fun slice_odd :: "'a list \<Rightarrow> 'a list" where
  "slice_odd [] = []"
| "slice_odd [x] = []"
| "slice_odd (x # y # xs) = y # slice_odd xs"

definition check_all_exons_known :: "int list \<Rightarrow> bool" where
  "check_all_exons_known novelty =
     (if length novelty = 1 then hd novelty = 0
      else let exons = slice_odd novelty in
        if sum_list exons > 0 then False else True)"

definition check_all_exons_novel :: "int list \<Rightarrow> pyval" where
  "check_all_exons_novel novelty =
     (if length novelty = 1 then PyInt 0
      else let exons = slice_odd novelty in
        if sum_list exons \<noteq> int (length exons) then PyBool False else PyBool True)"

definition check_all_SJs_known :: "int list \<Rightarrow> bool" where
  "check_all_SJs_known novelty =
     (if length novelty = 1 then hd novelty = 0
      else let introns = slice_even novelty in
        if sum_list introns > 0 then False else True)"

text \<open>
  The guard of the NNC branch of \<open>identify_transcript\<close>: the \<open>elif\<close> is reached when
  the spliced-antisense \<open>if\<close> before it is not taken.
\<close>

definition nnc_branch_taken :: "bool \<Rightarrow> bool \<Rightarrow> bool \<Rightarrow> pyval \<Rightarrow> bool" where
  "nnc_branch_taken splice_vertices_known gene_is_None fusion all_exons_novel =
     (\<not> (splice_vertices_known \<and> gene_is_None \<and> \<not> fusion)
      \<and> (\<not> splice_vertices_known \<and> \<not> fusion \<and> \<not> truthy all_exons_novel))"

section \<open>Gene assignment on vertex basis\<close>

text \<open>
  \<open>vertex_2_gene\<close> maps a vertex ID to a Python set of (gene ID, strand) pairs. The set
  is a duplicate-free list in its iteration order.
\<close>

type_synonym vertex_2_gene = "int \<rightharpoonup> (int \<times> string) list"

datatype gene_result = NoGene | OneGene int | Candidates "int list"

text \<open>The same-strand entries of one vertex: \<open>[m for m in curr_matches if m[1] == strand]\<close>.\<close>

definition strand_matches :: "vertex_2_gene \<Rightarrow> string \<Rightarrow> int \<Rightarrow> (int \<times> string) list" where
  "strand_matches v2g strand vertex =
     (case v2g vertex of None \<Rightarrow> [] | Some curr_matches \<Rightarrow> filter (\<lambda>m. snd m = strand) curr_matches)"

text \<open>The loop over the read's vertices, building \<open>gene_matches\<close> and \<open>n_gene_matches\<close>.\<close>

fun collect_gene_matches :: "vertex_2_gene \<Rightarrow> string \<Rightarrow> int list \<Rightarrow> int list \<times> nat list" where
  "collect_gene_matches v2g strand [] = ([], [])"
| "collect_gene_matches v2g strand (vertex # vs) =
     (let (gene_matches, n_gene_matches) = collect_gene_matches v2g strand vs in
      case v2g vertex of
        None \<Rightarrow> (gene_matches, n_gene_matches)
      | Some curr_matches \<Rightarrow>
          (map fst (strand_matches v2g strand vertex) @ gene_matches,
           length (strand_matches v2g strand vertex) # n_gene_matches))"

text \<open>
  \<open>gene_tally\<close>: one entry per distinct gene, with its number of occurrences. The source
  builds it by iterating \<open>set(gene_matches)\<close>, whose order Python leaves open; here the
  genes come in the order of their first occurrence. The function below reads the tally
  through its length, through its keys as candidates, and through \<open>max\<close> only when it has
  a single key.
\<close>

definition gene_tally :: "int list \<Rightarrow> (int \<times> nat) list" where
  "gene_tally gene_matches = map (\<lambda>x. (x, count_list gene_matches x)) (remdups gene_matches)"

text \<open>\<open>max(gene_tally, key=gene_tally.get)\<close>: the first key with the largest count.\<close>

fun max_by_count :: "(int \<times> nat) list \<Rightarrow> (int \<times> nat) option" where
  "max_by_count [] = None"
| "max_by_count (p # ps) =
     (case max_by_count ps of
        None \<Rightarrow> Some p
      | Some q \<Rightarrow> if snd q > snd p then Some q else Some p)"

definition py_max :: "nat list \<Rightarrow> nat" where
  "py_max ns = fold max ns 0"

definition find_gene_match_on_vertex_basis ::
  "int list \<Rightarrow> string \<Rightarrow> vertex_2_gene \<Rightarrow> py_error + (gene_result \<times> bool)" where
  "find_gene_match_on_vertex_basis vertex_IDs strand v2g =
     (let (gene_matches, n_gene_matches) = collect_gene_matches v2g strand vertex_IDs;
          tally = gene_tally gene_matches in
      if length gene_matches = 0 then Inr (NoGene, False)
      else if py_max n_gene_matches \<le> 1 \<and> length tally > 1 then Inr (NoGene, True)
      else if length tally > 1 then Inr (Candidates (map fst tally), False)
      else (case max_by_count tally of
              None \<Rightarrow> Inl ValueError
            | Some p \<Rightarrow> Inr (OneGene (fst p), False)))"

text \<open>
  The number of the read's vertices that a gene owns on the given strand: what the
  specification's rule counts.
\<close>

definition vertices_owned :: "vertex_2_gene \<Rightarrow> string \<Rightarrow> int list \<Rightarrow> int \<Rightarrow> nat" where
  "vertices_owned v2g strand vertex_IDs g =
     length (filter (\<lambda>v. g \<in> set (map fst (strand_matches v2g strand v))) vertex_IDs)"

definition matched_genes :: "vertex_2_gene \<Rightarrow> string \<Rightarrow> int list \<Rightarrow> int set" where
  "matched_genes v2g strand vertex_IDs =
     (\<Union>v \<in> set vertex_IDs. set (map fst (strand_matches v2g strand v)))"

section \<open>The annotation graph\<close>

text \<open>
  A vertex row of the location dict, an edge row of the edge dict and a transcript row of
  the transcript dict, with the keys the source gives them.
\<close>

record vertex =
  location_ID :: int
  genome_build :: string
  v_chromosome :: string
  v_position :: int

record edge =
  edge_ID :: int
  v1 :: int
  v2 :: int
  edge_type :: string
  e_strand :: string

record transcript =
  transcript_ID :: int
  gene_ID :: int
  jn_path :: "string option"
  start_exon :: int
  end_exon :: int
  start_vertex :: int
  end_vertex :: int
  n_exons :: int
  t_chromosome :: string
  start_pos :: int
  end_pos :: int

text \<open>A row of the temporary transcript table \<open>tmp_t\<close> that the overlap queries read.\<close>

record t_row =
  r_gene_ID :: int
  r_transcript_ID :: int
  r_chromosome :: string
  r_strand :: string
  min_pos :: int
  max_pos :: int

record run_info =
  build :: string
  cutoff_5p :: int
  cutoff_3p :: int
  idprefix :: string

text \<open>
  \<open>location_dict[chromosome][position]\<close> is a nested dict. \<open>gene_starts\<close> and
  \<open>gene_ends\<close> map a gene to a dict from position to vertex ID, which the source
  iterates, so it is a list of pairs in iteration order. The transcript dict is keyed by
  the frozenset of edge IDs and is iterated in insertion order.
\<close>

type_synonym location_dict = "string \<rightharpoonup> (int \<rightharpoonup> vertex)"
type_synonym edge_dict = "(int \<times> int \<times> string) \<rightharpoonup> edge"
type_synonym gene_locs = "int \<rightharpoonup> (int \<times> int) list"
type_synonym transcript_dict = "(int set \<times> transcript) list"

text \<open>
  The counters are \<open>multiprocessing.Value("i")\<close>, a C int: 32 bits, wrapping. An
  increment returns the new value read as a signed integer.
\<close>

record graph_state =
  locations :: location_dict
  edges :: edge_dict
  transcripts :: transcript_dict
  tmp_t :: "t_row list"
  vertex_counter :: "32 word"
  edge_counter :: "32 word"
  transcript_counter :: "32 word"

definition increment :: "32 word \<Rightarrow> 32 word \<times> int" where
  "increment val = (val + 1, sint (val + 1))"

definition search_for_vertex_at_pos :: "string \<Rightarrow> int \<Rightarrow> location_dict \<Rightarrow> vertex option" where
  "search_for_vertex_at_pos chromosome position location_dict =
     (case location_dict chromosome of None \<Rightarrow> None | Some d \<Rightarrow> d position)"

definition search_for_edge :: "int \<Rightarrow> int \<Rightarrow> string \<Rightarrow> edge_dict \<Rightarrow> edge option" where
  "search_for_edge vertex_1 vertex_2 etype edge_dict = edge_dict (vertex_1, vertex_2, etype)"

definition compute_delta :: "int \<Rightarrow> int \<Rightarrow> string \<Rightarrow> py_error + int" where
  "compute_delta orig_pos new_pos strand =
     (let abs_dist = \<bar>orig_pos - new_pos\<bar> in
      if strand = ''+'' then (if new_pos < orig_pos then Inr (- 1 * abs_dist) else Inr abs_dist)
      else if strand = ''-'' then (if new_pos < orig_pos then Inr abs_dist else Inr (- 1 * abs_dist))
      else Inl ValueError)"

section \<open>Permissive end matching\<close>

text \<open>
  The body of the \<open>for dist in range(1, max_dist)\<close> loop of
  \<open>permissive_vertex_search\<close>, over the list of offsets still to try: first the
  position in the priority direction, then the one in the other direction.
\<close>

fun scan_offsets ::
  "string \<Rightarrow> int \<Rightarrow> string \<Rightarrow> location_dict \<Rightarrow> int \<Rightarrow> int \<Rightarrow> int \<Rightarrow> int list
   \<Rightarrow> py_error + (int option \<times> int option)" where
  "scan_offsets chromosome position strand locs direction_priority
      search_window_start search_window_end [] = Inr (None, None)"
| "scan_offsets chromosome position strand locs direction_priority
      search_window_start search_window_end (dist # rest) =
     (let curr_pos = position + dist * direction_priority;
          found = (if curr_pos > search_window_start \<and> curr_pos < search_window_end
                   then search_for_vertex_at_pos chromosome curr_pos locs else None) in
      case found of
        Some m \<Rightarrow>
          (case compute_delta curr_pos position strand of
             Inl e \<Rightarrow> Inl e
           | Inr d \<Rightarrow> Inr (Some (location_ID m), Some d))
      | None \<Rightarrow>
          (let curr_pos2 = position - dist * direction_priority;
               found2 = (if curr_pos2 > search_window_start \<and> curr_pos2 < search_window_end
                         then search_for_vertex_at_pos chromosome curr_pos2 locs else None) in
           case found2 of
             Some m \<Rightarrow>
               (case compute_delta curr_pos2 position strand of
                  Inl e \<Rightarrow> Inl e
                | Inr d \<Rightarrow> Inr (Some (location_ID m), Some d))
           | None \<Rightarrow>
               scan_offsets chromosome position strand locs direction_priority
                 search_window_start search_window_end rest))"

text \<open>
  An invalid strand reaches an f-string that names the undefined variable \<open>s\<close>, so the
  exception is a NameError, not the ValueError the source builds.
\<close>

definition permissive_vertex_search ::
  "string \<Rightarrow> int \<Rightarrow> string \<Rightarrow> int \<Rightarrow> string \<Rightarrow> location_dict \<Rightarrow> run_info
   \<Rightarrow> py_error + (int option \<times> int option)" where
  "permissive_vertex_search chromosome position strand sj_pos pos_type locs ri =
     (case search_for_vertex_at_pos chromosome position locs of
        Some m \<Rightarrow> Inr (Some (location_ID m), Some 0)
      | None \<Rightarrow>
          if pos_type \<noteq> ''start'' \<and> pos_type \<noteq> ''end'' then Inl ValueError
          else if strand \<noteq> ''+'' \<and> strand \<noteq> ''-'' then Inl NameError
          else
            let max_dist = (if pos_type = ''start'' then cutoff_5p ri else cutoff_3p ri) in
            if (strand = ''+'' \<and> pos_type = ''start'') \<or> (strand = ''-'' \<and> pos_type = ''end'')
            then scan_offsets chromosome position strand locs (- 1)
                   (position - max_dist) sj_pos [1 .. max_dist - 1]
            else scan_offsets chromosome position strand locs 1
                   sj_pos (position + max_dist) [1 .. max_dist - 1])"

text \<open>
  The loop of \<open>permissive_match_with_gene_priority\<close> over the gene's known start or end
  positions; the accumulator is (\<open>min_abs_dist\<close>, \<open>best_dist\<close>, \<open>closest_vertex\<close>).
\<close>

fun closest_gene_loc ::
  "int \<Rightarrow> string \<Rightarrow> int \<Rightarrow> int \<Rightarrow> (int \<times> int) list \<Rightarrow> int \<times> int option \<times> int option
   \<Rightarrow> py_error + (int \<times> int option \<times> int option)" where
  "closest_gene_loc position strand search_window_start search_window_end [] acc = Inr acc"
| "closest_gene_loc position strand search_window_start search_window_end
      ((known_location, v) # rest) (min_abs_dist, best_dist, closest_vertex) =
     (if known_location < search_window_start \<or> known_location > search_window_end
      then closest_gene_loc position strand search_window_start search_window_end rest
             (min_abs_dist, best_dist, closest_vertex)
      else case compute_delta known_location position strand of
             Inl e \<Rightarrow> Inl e
           | Inr curr_dist \<Rightarrow>
               if \<bar>curr_dist\<bar> < min_abs_dist
               then closest_gene_loc position strand search_window_start search_window_end rest
                      (\<bar>curr_dist\<bar>, Some curr_dist, Some v)
               else closest_gene_loc position strand search_window_start search_window_end rest
                      (min_abs_dist, best_dist, closest_vertex))"

definition permissive_match_with_gene_priority ::
  "string \<Rightarrow> int \<Rightarrow> string \<Rightarrow> int \<Rightarrow> string \<Rightarrow> int \<Rightarrow> gene_locs \<Rightarrow> location_dict \<Rightarrow> run_info
   \<Rightarrow> py_error + (int option \<times> int option \<times> int)" where
  "permissive_match_with_gene_priority chromosome position strand sj_pos pos_type g gene_locs locs ri =
     (if pos_type \<noteq> ''start'' \<and> pos_type \<noteq> ''end'' then Inl ValueError
      else if strand \<noteq> ''+'' \<and> strand \<noteq> ''-'' then Inl ValueError
      else case search_for_vertex_at_pos chromosome position locs of
        Some m \<Rightarrow>
          (case gene_locs g of
             Some known \<Rightarrow>
               if position \<in> set (map fst known) then Inr (Some (location_ID m), Some 0, 1)
               else Inr (Some (location_ID m), Some 0, 0)
           | None \<Rightarrow> Inr (Some (location_ID m), Some 0, 0))
      | None \<Rightarrow>
          let fallback =
            (case permissive_vertex_search chromosome position strand sj_pos pos_type locs ri of
               Inl e \<Rightarrow> Inl e
             | Inr (m, dist) \<Rightarrow> Inr (m, dist, 0)) in
          case gene_locs g of
            None \<Rightarrow> fallback
          | Some known \<Rightarrow>
              let max_dist = (if pos_type = ''start'' then cutoff_5p ri else cutoff_3p ri);
                  (search_window_start, search_window_end) =
                    (if (strand = ''+'' \<and> pos_type = ''start'') \<or> (strand = ''-'' \<and> pos_type = ''end'')
                     then (position - max_dist, sj_pos) else (sj_pos, position + max_dist)) in
              case closest_gene_loc position strand search_window_start search_window_end known
                     (max_dist + 1, None, None) of
                Inl e \<Rightarrow> Inl e
              | Inr (min_abs_dist, best_dist, closest_vertex) \<Rightarrow>
                  if min_abs_dist \<le> max_dist then Inr (closest_vertex, best_dist, 1)
                  else fallback)"

section \<open>Creating vertices and edges\<close>

definition create_vertex :: "string \<Rightarrow> int \<Rightarrow> run_info \<Rightarrow> graph_state \<Rightarrow> vertex \<times> graph_state" where
  "create_vertex chromosome position ri s =
     (let (c, new_ID) = increment (vertex_counter s);
          new_vertex = \<lparr>location_ID = new_ID, genome_build = build ri,
                        v_chromosome = chromosome, v_position = position\<rparr>;
          d = (case locations s chromosome of
                 Some d \<Rightarrow> d(position \<mapsto> new_vertex)
               | None \<Rightarrow> [position \<mapsto> new_vertex]) in
      (new_vertex, s\<lparr>locations := (locations s)(chromosome \<mapsto> d), vertex_counter := c\<rparr>))"

definition create_edge :: "int \<Rightarrow> int \<Rightarrow> string \<Rightarrow> string \<Rightarrow> graph_state \<Rightarrow> edge \<times> graph_state" where
  "create_edge vertex_1 vertex_2 etype strand s =
     (let (c, new_ID) = increment (edge_counter s);
          new_edge = \<lparr>edge_ID = new_ID, v1 = vertex_1, v2 = vertex_2,
                      edge_type = etype, e_strand = strand\<rparr> in
      (new_edge, s\<lparr>edges := (edges s)((vertex_1, vertex_2, etype) \<mapsto> new_edge), edge_counter := c\<rparr>))"

definition match_or_create_edge ::
  "int \<Rightarrow> int \<Rightarrow> string \<Rightarrow> string \<Rightarrow> graph_state \<Rightarrow> (int \<times> int) \<times> graph_state" where
  "match_or_create_edge vertex_1 vertex_2 etype strand s =
     (case search_for_edge vertex_1 vertex_2 etype (edges s) of
        Some edge_match \<Rightarrow> ((edge_ID edge_match, 0), s)
      | None \<Rightarrow>
          (let (edge_match, s') = create_edge vertex_1 vertex_2 etype strand s in
           ((edge_ID edge_match, 1), s')))"

text \<open>Python indexing \<open>xs[0]\<close>, \<open>xs[1]\<close>, \<open>xs[-1]\<close>, \<open>xs[-2]\<close>: an IndexError out of range.\<close>

definition index0 :: "'a list \<Rightarrow> py_error + 'a" where
  "index0 xs = (case xs of [] \<Rightarrow> Inl IndexError | x # _ \<Rightarrow> Inr x)"

definition index1 :: "'a list \<Rightarrow> py_error + 'a" where
  "index1 xs = (case xs of x # y # _ \<Rightarrow> Inr y | _ \<Rightarrow> Inl IndexError)"

definition index_last :: "'a list \<Rightarrow> py_error + 'a" where
  "index_last xs = index0 (rev xs)"

definition index_last2 :: "'a list \<Rightarrow> py_error + 'a" where
  "index_last2 xs = index1 (rev xs)"

section \<open>Processing the 5' and 3' ends\<close>

text \<open>
  Both return (vertex, exon, exon novelty, known end, distance) and the updated state.
\<close>

type_synonym end_result = "int \<times> int \<times> int \<times> int \<times> int option"

definition process_5p ::
  "string \<Rightarrow> int list \<Rightarrow> string \<Rightarrow> int list \<Rightarrow> int \<Rightarrow> gene_locs \<Rightarrow> run_info \<Rightarrow> graph_state
   \<Rightarrow> py_error + (end_result \<times> graph_state)" where
  "process_5p chrom positions strand vertex_IDs g gene_starts ri s =
     (case index0 positions of Inl e \<Rightarrow> Inl e | Inr p0 \<Rightarrow>
      case index1 positions of Inl e \<Rightarrow> Inl e | Inr p1 \<Rightarrow>
      case permissive_match_with_gene_priority chrom p0 strand p1 ''start'' g gene_starts
             (locations s) ri of
        Inl e \<Rightarrow> Inl e
      | Inr (m, diff_5p, known_start) \<Rightarrow>
          let (start_vertex, s1) =
                (case m of
                   Some v \<Rightarrow> (v, s)
                 | None \<Rightarrow> (let (nv, s') = create_vertex chrom p0 ri s in (location_ID nv, s'))) in
          case index0 vertex_IDs of Inl e \<Rightarrow> Inl e | Inr v0 \<Rightarrow>
            let ((start_exon, start_novelty), s2) =
                  match_or_create_edge start_vertex v0 ''exon'' strand s1 in
            Inr ((start_vertex, start_exon, start_novelty, known_start, diff_5p), s2))"

definition process_3p ::
  "string \<Rightarrow> int list \<Rightarrow> string \<Rightarrow> int list \<Rightarrow> int \<Rightarrow> gene_locs \<Rightarrow> run_info \<Rightarrow> graph_state
   \<Rightarrow> py_error + (end_result \<times> graph_state)" where
  "process_3p chrom positions strand vertex_IDs g gene_ends ri s =
     (case index_last positions of Inl e \<Rightarrow> Inl e | Inr pl \<Rightarrow>
      case index_last2 positions of Inl e \<Rightarrow> Inl e | Inr pl2 \<Rightarrow>
      case permissive_match_with_gene_priority chrom pl strand pl2 ''end'' g gene_ends
             (locations s) ri of
        Inl e \<Rightarrow> Inl e
      | Inr (m, diff_3p, known_end) \<Rightarrow>
          let (end_vertex, s1) =
                (case m of
                   Some v \<Rightarrow> (v, s)
                 | None \<Rightarrow> (let (nv, s') = create_vertex chrom pl ri s in (location_ID nv, s'))) in
          case index_last vertex_IDs of Inl e \<Rightarrow> Inl e | Inr vl \<Rightarrow>
            let ((end_exon, end_novelty), s2) =
                  match_or_create_edge vl end_vertex ''exon'' strand s1 in
            Inr ((end_vertex, end_exon, end_novelty, known_end, diff_3p), s2))"

section \<open>Full splice matches\<close>

record start_end_info =
  sei_start_vertex :: int
  sei_end_vertex :: int
  sei_start_exon :: int
  sei_end_exon :: int
  sei_diff_5p :: "int option"
  sei_diff_3p :: "int option"
  sei_start_novelty :: int
  sei_end_novelty :: int
  sei_vertex_IDs :: "int list"
  sei_edge_IDs :: "int list"

text \<open>
  \<open>start_end_info\<close> is \<open>None\<close>, the empty dict, or the filled dict. An annotation row is
  (ID, annotation name, source, attribute, value).
\<close>

datatype sei_result = SEI_None | SEI_Empty | SEI start_end_info

type_synonym annot = "int \<times> string \<times> string \<times> string \<times> string"

type_synonym match_result = "int option \<times> int option \<times> annot list \<times> sei_result"

definition process_FSM ::
  "string \<Rightarrow> int list \<Rightarrow> string \<Rightarrow> int list \<Rightarrow> int list \<Rightarrow> transcript list
   \<Rightarrow> gene_locs \<Rightarrow> gene_locs \<Rightarrow> run_info \<Rightarrow> graph_state
   \<Rightarrow> py_error + (match_result \<times> graph_state)" where
  "process_FSM chrom positions strand edge_IDs vertex_IDs all_matches gene_starts gene_ends ri s =
     (let n = int (length positions) div 2;
          FSM_matches = filter (\<lambda>x. n_exons x = n) all_matches in
      case FSM_matches of
        [] \<Rightarrow> Inr ((None, None, [], SEI_None), s)
      | transcript_match # _ \<Rightarrow>
          case index0 positions of Inl e \<Rightarrow> Inl e | Inr p0 \<Rightarrow>
          case compute_delta (start_pos transcript_match) p0 strand of Inl e \<Rightarrow> Inl e
          | Inr curr_5p_diff \<Rightarrow>
          case index_last positions of Inl e \<Rightarrow> Inl e | Inr pl \<Rightarrow>
          case compute_delta (end_pos transcript_match) pl strand of Inl e \<Rightarrow> Inl e
          | Inr curr_3p_diff \<Rightarrow>
          case (if \<bar>curr_5p_diff\<bar> \<le> cutoff_5p ri
                then Inr ((start_vertex transcript_match, start_exon transcript_match, 0, 0,
                           Some curr_5p_diff), s)
                else process_5p chrom positions strand vertex_IDs (gene_ID transcript_match)
                       gene_starts ri s) of
            Inl e \<Rightarrow> Inl e
          | Inr ((sv, sx, start_novelty, known_start, diff_5p), s1) \<Rightarrow>
          case (if \<bar>curr_3p_diff\<bar> \<le> cutoff_3p ri
                then Inr ((end_vertex transcript_match, end_exon transcript_match, 0, 0,
                           Some curr_3p_diff), s1)
                else process_3p chrom positions strand vertex_IDs (gene_ID transcript_match)
                       gene_ends ri s1) of
            Inl e \<Rightarrow> Inl e
          | Inr ((ev, ex, end_novelty, known_end, diff_3p), s2) \<Rightarrow>
              Inr ((Some (gene_ID transcript_match), Some (transcript_ID transcript_match), [],
                    SEI \<lparr>sei_start_vertex = sv, sei_end_vertex = ev,
                         sei_start_exon = sx, sei_end_exon = ex,
                         sei_diff_5p = diff_5p, sei_diff_3p = diff_3p,
                         sei_start_novelty = start_novelty, sei_end_novelty = end_novelty,
                         sei_vertex_IDs = [sv] @ vertex_IDs @ [ev],
                         sei_edge_IDs = [sx] @ edge_IDs @ [ex]\<rparr>), s2))"

section \<open>Gene assignment by span overlap\<close>

text \<open>
  \<open>sys.maxsize\<close> on a 64-bit build. The loop of \<open>get_best_match\<close> keeps
  (\<open>min_dist\<close>, \<open>best_match\<close>); a later match replaces the best one only when its
  distance is strictly smaller.
\<close>

definition sys_maxsize :: int where
  "sys_maxsize = 9223372036854775807"

definition match_dist :: "int \<Rightarrow> int \<Rightarrow> t_row \<Rightarrow> int" where
  "match_dist min_end max_end m = \<bar>max_pos m - max_end\<bar> + \<bar>min_pos m - min_end\<bar>"

fun best_match_loop :: "int \<Rightarrow> int \<Rightarrow> t_row list \<Rightarrow> int \<times> t_row option \<Rightarrow> int \<times> t_row option" where
  "best_match_loop min_end max_end [] acc = acc"
| "best_match_loop min_end max_end (m # ms) (min_dist, best_match) =
     (let dist = match_dist min_end max_end m in
      if dist < min_dist then best_match_loop min_end max_end ms (dist, Some m)
      else best_match_loop min_end max_end ms (min_dist, best_match))"

text \<open>
  The closing debug line formats \<open>best_match['gene_ID']\<close>, so a call that found no
  match raises a TypeError.
\<close>

definition get_best_match :: "t_row list \<Rightarrow> int \<Rightarrow> int \<Rightarrow> py_error + t_row" where
  "get_best_match matches min_end max_end =
     (case snd (best_match_loop min_end max_end matches (sys_maxsize, None)) of
        None \<Rightarrow> Inl TypeError
      | Some m \<Rightarrow> Inr m)"

text \<open>
  The two queries on \<open>tmp_t\<close>. With a list of gene IDs the query selects every row of
  those genes, with no condition on the chromosome or the interval. Without one it
  selects the rows on the chromosome whose span meets the interval, grouped by gene:
  one row per gene in ascending gene ID, its columns taken from a row of the group that
  the database engine chooses (\<open>bare_row\<close>, a parameter).
\<close>

definition query_gene_ids :: "t_row list \<Rightarrow> int list \<Rightarrow> t_row list" where
  "query_gene_ids table gene_IDs = filter (\<lambda>r. r_gene_ID r \<in> set gene_IDs) table"

definition span_overlaps :: "string \<Rightarrow> int \<Rightarrow> int \<Rightarrow> t_row \<Rightarrow> bool" where
  "span_overlaps chrom min_start max_end r =
     (r_chromosome r = chrom \<and>
      ((min_pos r \<le> min_start \<and> max_pos r \<ge> max_end) \<or>
       (min_pos r \<ge> min_start \<and> max_pos r \<le> max_end) \<or>
       (min_pos r \<ge> min_start \<and> min_pos r \<le> max_end) \<or>
       (max_pos r \<ge> min_start \<and> max_pos r \<le> max_end)))"

definition query_overlap ::
  "(t_row list \<Rightarrow> t_row) \<Rightarrow> t_row list \<Rightarrow> string \<Rightarrow> int \<Rightarrow> int \<Rightarrow> t_row list" where
  "query_overlap bare_row table chrom min_start max_end =
     (let hits = filter (span_overlaps chrom min_start max_end) table in
      map (\<lambda>g. bare_row (filter (\<lambda>r. r_gene_ID r = g) hits))
          (sort (remdups (map r_gene_ID hits))))"

definition search_for_overlap_with_gene ::
  "(t_row list \<Rightarrow> t_row) \<Rightarrow> string \<Rightarrow> int \<Rightarrow> int \<Rightarrow> string \<Rightarrow> t_row list \<Rightarrow> int list option
   \<Rightarrow> py_error + (int option \<times> string option)" where
  "search_for_overlap_with_gene bare_row chromosome start_p end_p strand table gene_IDs =
     (let min_start = min start_p end_p;
          max_end = max start_p end_p;
          fetched = (case gene_IDs of
                       Some ids \<Rightarrow> query_gene_ids table ids
                     | None \<Rightarrow> query_overlap bare_row table chromosome min_start max_end);
          matches = (case gene_IDs of
                       Some (g # gs) \<Rightarrow> filter (\<lambda>m. r_gene_ID m \<in> set (g # gs)) fetched
                     | _ \<Rightarrow> fetched) in
      if length matches = 0 then Inr (None, None)
      else
        let same_strand_matches = length (filter (\<lambda>x. r_strand x = strand) matches);
            chosen = (if (strand = ''+'' \<and> same_strand_matches > 0)
                         \<or> (strand = ''-'' \<and> same_strand_matches = 0)
                      then filter (\<lambda>x. r_strand x = ''+'') matches
                      else filter (\<lambda>x. r_strand x = ''-'') matches) in
        case get_best_match chosen min_start max_end of
          Inl e \<Rightarrow> Inl e
        | Inr best_match \<Rightarrow> Inr (Some (r_gene_ID best_match), Some (r_strand best_match)))"

section \<open>Transcripts\<close>

text \<open>Python's \<open>str\<close> on an integer and \<open>sep.join\<close>.\<close>

fun str_nat :: "nat \<Rightarrow> string" where
  "str_nat n = (if n < 10 then [''0123456789'' ! n]
                else str_nat (n div 10) @ [''0123456789'' ! (n mod 10)])"

declare str_nat.simps [simp del]

definition str_int :: "int \<Rightarrow> string" where
  "str_int i = (if i < 0 then ''-'' @ str_nat (nat (- i)) else str_nat (nat i))"

fun join :: "string \<Rightarrow> string list \<Rightarrow> string" where
  "join sep [] = []"
| "join sep [x] = x"
| "join sep (x # y # xs) = x @ sep @ join sep (y # xs)"

text \<open>The slice \<open>edge_IDs[1:-1]\<close>.\<close>

definition interior :: "'a list \<Rightarrow> 'a list" where
  "interior xs = butlast (tl xs)"

text \<open>
  Assignment \<open>d[k] = v\<close> on a dict kept in insertion order: an existing key keeps its
  place, a new key goes to the end.
\<close>

fun dict_set :: "'k \<Rightarrow> 'v \<Rightarrow> ('k \<times> 'v) list \<Rightarrow> ('k \<times> 'v) list" where
  "dict_set k v [] = [(k, v)]"
| "dict_set k v ((k', v') # d) = (if k' = k then (k, v) # d else (k', v') # dict_set k v d)"

definition create_transcript ::
  "string \<Rightarrow> string \<Rightarrow> int \<Rightarrow> int \<Rightarrow> int \<Rightarrow> int list \<Rightarrow> int list \<Rightarrow> graph_state
   \<Rightarrow> py_error + (transcript \<times> graph_state)" where
  "create_transcript strand chromosome start_p end_p g edge_IDs vertex_IDs s =
     (let (c, new_ID) = increment (transcript_counter s);
          jp = (if length edge_IDs > 1 then Some (join '','' (map str_int (interior edge_IDs)))
                else None) in
      case index0 edge_IDs of Inl e \<Rightarrow> Inl e | Inr e0 \<Rightarrow>
      case index_last edge_IDs of Inl e \<Rightarrow> Inl e | Inr el \<Rightarrow>
      case index0 vertex_IDs of Inl e \<Rightarrow> Inl e | Inr v0 \<Rightarrow>
      case index_last vertex_IDs of Inl e \<Rightarrow> Inl e | Inr vl \<Rightarrow>
        let new_transcript =
              \<lparr>transcript_ID = new_ID, gene_ID = g, jn_path = jp,
               start_exon = e0, end_exon = el, start_vertex = v0, end_vertex = vl,
               n_exons = (int (length edge_IDs) + 1) div 2,
               t_chromosome = chromosome, start_pos = start_p, end_pos = end_p\<rparr>;
            new_t = \<lparr>r_gene_ID = g, r_transcript_ID = new_ID, r_chromosome = chromosome,
                     r_strand = strand, min_pos = min start_p end_p, max_pos = max start_p end_p\<rparr> in
        Inr (new_transcript,
             s\<lparr>transcripts := dict_set (set edge_IDs) new_transcript (transcripts s),
               tmp_t := tmp_t s @ [new_t],
               transcript_counter := c\<rparr>))"

definition search_for_ISM :: "int list \<Rightarrow> transcript_dict \<Rightarrow> transcript list option" where
  "search_for_ISM edge_IDs d =
     (let ISM_matches = map snd (filter (\<lambda>x. set edge_IDs \<subseteq> fst x) d) in
      if length ISM_matches > 0 then Some ISM_matches else None)"

definition search_for_transcript :: "int set \<Rightarrow> transcript_dict \<Rightarrow> (int \<times> transcript) option" where
  "search_for_transcript edge_IDs d =
     (case map_of d edge_IDs of None \<Rightarrow> None | Some t \<Rightarrow> Some (gene_ID t, t))"

section \<open>Incomplete splice matches\<close>

text \<open>
  The loop of \<open>process_ISM\<close> over the matches of the assigned gene. The accumulator is
  (\<open>ISM\<close>, \<open>prefix\<close>, \<open>suffix\<close>, \<open>gene_ID\<close>). A single-exon read that meets a
  single-exon match leaves the function at once with that match's gene and transcript
  (\<open>Inl\<close> of the inner sum).
\<close>

type_synonym ism_acc = "string list \<times> string list \<times> string list \<times> int"

fun ism_loop ::
  "int \<Rightarrow> int list \<Rightarrow> transcript list \<Rightarrow> ism_acc \<Rightarrow> py_error + ((int \<times> int) + ism_acc)" where
  "ism_loop n edge_IDs [] acc = Inr (Inr acc)"
| "ism_loop n edge_IDs (m # ms) (ISM, prefix_l, suffix_l, g) =
     (let ISM' = ISM @ [str_int (transcript_ID m)] in
      if n = 1 then
        (if n_exons m = 1 then Inr (Inl (gene_ID m, transcript_ID m))
         else case index0 edge_IDs of Inl e \<Rightarrow> Inl e | Inr e0 \<Rightarrow>
           case jn_path m of None \<Rightarrow> Inl AttributeError | Some match_path \<Rightarrow>
             let exon = str_int e0;
                 prefix' = (if prefix exon match_path
                            then prefix_l @ [str_int (transcript_ID m)] else prefix_l);
                 (suffix', g') = (if suffix exon match_path
                                  then (suffix_l @ [str_int (transcript_ID m)], gene_ID m)
                                  else (suffix_l, g)) in
             ism_loop n edge_IDs ms (ISM', prefix', suffix', g'))
      else
        (let edge_str = join '','' (map str_int (interior edge_IDs)) in
         case jn_path m of None \<Rightarrow> Inl AttributeError | Some match_path \<Rightarrow>
           let prefix' = (if prefix edge_str match_path
                          then prefix_l @ [str_int (transcript_ID m)] else prefix_l);
               (suffix', g') = (if suffix edge_str match_path
                                then (suffix_l @ [str_int (transcript_ID m)], gene_ID m)
                                else (suffix_l, g)) in
           ism_loop n edge_IDs ms (ISM', prefix', suffix', g')))"

definition ism_novelty :: "int \<Rightarrow> run_info \<Rightarrow> string list \<Rightarrow> string list \<Rightarrow> string list \<Rightarrow> annot list" where
  "ism_novelty tid ri ISM prefix_l suffix_l =
     [(tid, idprefix ri, ''TALON'', ''ISM_transcript'', ''TRUE''),
      (tid, idprefix ri, ''TALON'', ''ISM_to_IDs'', join '','' ISM)]
     @ (if prefix_l \<noteq> []
        then [(tid, idprefix ri, ''TALON'', ''ISM-prefix_transcript'', ''TRUE''),
              (tid, idprefix ri, ''TALON'', ''ISM-prefix_to_IDs'', join '','' prefix_l)]
        else [])
     @ (if suffix_l \<noteq> []
        then [(tid, idprefix ri, ''TALON'', ''ISM-suffix_transcript'', ''TRUE''),
              (tid, idprefix ri, ''TALON'', ''ISM-suffix_to_IDs'', join '','' suffix_l)]
        else [])"

text \<open>
  The choice of the gene at the head of \<open>process_ISM\<close>: with matches in more than one
  gene the tie is broken by \<open>search_for_overlap_with_gene\<close> among those genes and the
  matches are restricted to the chosen gene.
\<close>

definition ism_choose_gene ::
  "(t_row list \<Rightarrow> t_row) \<Rightarrow> string \<Rightarrow> int list \<Rightarrow> string \<Rightarrow> transcript list \<Rightarrow> graph_state
   \<Rightarrow> py_error + (int option \<times> transcript list)" where
  "ism_choose_gene bare_row chrom positions strand all_matches s =
     (let gene_matches = remdups (map gene_ID all_matches) in
      if length gene_matches > 1 then
        (case index0 positions of Inl e \<Rightarrow> Inl e | Inr p0 \<Rightarrow>
         case index_last positions of Inl e \<Rightarrow> Inl e | Inr pl \<Rightarrow>
         case search_for_overlap_with_gene bare_row chrom p0 pl strand (tmp_t s)
                (Some gene_matches) of
           Inl e \<Rightarrow> Inl e
         | Inr (g, _) \<Rightarrow> Inr (g, filter (\<lambda>m. Some (gene_ID m) = g) all_matches))
      else
        (case index0 all_matches of Inl e \<Rightarrow> Inl e
         | Inr m0 \<Rightarrow> Inr (Some (gene_ID m0), all_matches)))"

definition process_ISM ::
  "(t_row list \<Rightarrow> t_row) \<Rightarrow> string \<Rightarrow> int list \<Rightarrow> string \<Rightarrow> int list \<Rightarrow> int list \<Rightarrow> transcript list
   \<Rightarrow> gene_locs \<Rightarrow> gene_locs \<Rightarrow> run_info \<Rightarrow> graph_state
   \<Rightarrow> py_error + (match_result \<times> graph_state)" where
  "process_ISM bare_row chrom positions strand edge_IDs vertex_IDs all_matches
      gene_starts gene_ends ri s =
     (let n = int (length positions) div 2 in
      case ism_choose_gene bare_row chrom positions strand all_matches s of
        Inl e \<Rightarrow> Inl e
      | Inr (None, _) \<Rightarrow> Inr ((None, None, [], SEI_None), s)
      | Inr (Some g, gene_matches) \<Rightarrow>
          case (if n > 1 then
                  (case process_5p chrom positions strand vertex_IDs g gene_starts ri s of
                     Inl e \<Rightarrow> Inl e
                   | Inr ((sv, sx, start_novelty, known_start, diff_5p), s1) \<Rightarrow>
                   case process_3p chrom positions strand vertex_IDs g gene_ends ri s1 of
                     Inl e \<Rightarrow> Inl e
                   | Inr ((ev, ex, end_novelty, known_end, diff_3p), s2) \<Rightarrow>
                       Inr ([sx] @ edge_IDs @ [ex], [sv] @ vertex_IDs @ [ev],
                            SEI \<lparr>sei_start_vertex = sv, sei_end_vertex = ev,
                                 sei_start_exon = sx, sei_end_exon = ex,
                                 sei_diff_5p = diff_5p, sei_diff_3p = diff_3p,
                                 sei_start_novelty = start_novelty, sei_end_novelty = end_novelty,
                                 sei_vertex_IDs = [sv] @ vertex_IDs @ [ev],
                                 sei_edge_IDs = [sx] @ edge_IDs @ [ex]\<rparr>, s2))
                else Inr (edge_IDs, vertex_IDs, SEI_Empty, s)) of
            Inl e \<Rightarrow> Inl e
          | Inr (edge_IDs', vertex_IDs', info, s2) \<Rightarrow>
              case ism_loop n edge_IDs' gene_matches ([], [], [], g) of
                Inl e \<Rightarrow> Inl e
              | Inr (Inl (g', tid)) \<Rightarrow> Inr ((Some g', Some tid, [], info), s2)
              | Inr (Inr (ISM, prefix_l, suffix_l, g')) \<Rightarrow>
                  case index0 positions of Inl e \<Rightarrow> Inl e | Inr p0 \<Rightarrow>
                  case index_last positions of Inl e \<Rightarrow> Inl e | Inr pl \<Rightarrow>
                  case create_transcript strand chrom p0 pl g' edge_IDs' vertex_IDs' s2 of
                    Inl e \<Rightarrow> Inl e
                  | Inr (novel_transcript, s3) \<Rightarrow>
                      Inr ((Some g', Some (transcript_ID novel_transcript),
                            ism_novelty (transcript_ID novel_transcript) ri ISM prefix_l suffix_l,
                            info), s3))"

section \<open>The batch commit\<close>

text \<open>
  The persistent store: the tables by name, and the \<open>counters\<close> table as its rows
  (category, count). The schema of the tables is not part of this program, so what an
  INSERT does to a table is a parameter \<open>ins\<close>: given whether the statement is
  \<open>INSERT OR IGNORE\<close>, the table's name, its rows and the new row, it returns the new
  rows, or \<open>None\<close> when the statement raises (a constraint is violated).
\<close>

datatype sql_value = SqlNull | SqlText string | SqlInt int

type_synonym row = "sql_value list"

record database =
  tables :: "string \<rightharpoonup> row list"
  counters :: "(string \<times> int) list"

type_synonym insert_fn = "bool \<Rightarrow> string \<Rightarrow> row list \<Rightarrow> row \<Rightarrow> row list option"

text \<open>
  \<open>cursor.executemany\<close> of an INSERT with \<open>k\<close> placeholders: a missing table, a row
  with another number of values and a refused row all raise. The statement is compiled
  before the first row is bound, so a missing table raises even when there is no row.
  Every call is inside \<open>try ... except Exception: sys.exit(1)\<close>.
\<close>

fun executemany :: "insert_fn \<Rightarrow> bool \<Rightarrow> string \<Rightarrow> nat \<Rightarrow> row list \<Rightarrow> database \<Rightarrow> py_error + database" where
  "executemany ins or_ignore table k [] db =
     (case tables db table of
        None \<Rightarrow> Inl SysExit
      | Some rows \<Rightarrow> Inr db)"
| "executemany ins or_ignore table k (r # rs) db =
     (case tables db table of
        None \<Rightarrow> Inl SysExit
      | Some rows \<Rightarrow>
          if length r \<noteq> k then Inl SysExit
          else
            (case ins or_ignore table rows r of
               None \<Rightarrow> Inl SysExit
             | Some rows' \<Rightarrow>
                 executemany ins or_ignore table k rs (db\<lparr>tables := (tables db)(table \<mapsto> rows')\<rparr>)))"

text \<open>
  Reading a log file: text mode turns \<open>\r\n\<close> and \<open>\r\<close> into \<open>\n\<close>, iteration yields
  the lines, \<open>x.strip().split("\t")\<close> gives the fields. A character is a code point
  below 256; \<open>is_space\<close> holds of those that \<open>str.isspace\<close> accepts, among them the
  next-line character U+0085 and the no-break space U+00A0.
\<close>

fun universal_newlines :: "string \<Rightarrow> string" where
  "universal_newlines [] = []"
| "universal_newlines [x] = (if x = CHR 0x0D then [CHR 0x0A] else [x])"
| "universal_newlines (x # y # xs) =
     (if x = CHR 0x0D then
        (if y = CHR 0x0A then CHR 0x0A # universal_newlines xs
         else CHR 0x0A # universal_newlines (y # xs))
      else x # universal_newlines (y # xs))"

fun split_on :: "char \<Rightarrow> string \<Rightarrow> string list" where
  "split_on c [] = [[]]"
| "split_on c (x # xs) =
     (if x = c then [] # split_on c xs
      else case split_on c xs of
             w # ws \<Rightarrow> (x # w) # ws
           | [] \<Rightarrow> [[x]])"

definition lines_of :: "string \<Rightarrow> string list" where
  "lines_of text =
     (let ps = split_on (CHR 0x0A) (universal_newlines text) in
      if last ps = [] then butlast ps else ps)"

definition is_space :: "char \<Rightarrow> bool" where
  "is_space c = (c \<in> set [CHR '' '', CHR 0x09, CHR 0x0A, CHR 0x0B, CHR 0x0C, CHR 0x0D,
                            CHR 0x1C, CHR 0x1D, CHR 0x1E, CHR 0x1F, CHR 0x85, CHR 0xA0])"

definition strip :: "string \<Rightarrow> string" where
  "strip x = rev (dropWhile is_space (rev (dropWhile is_space x)))"

definition fields :: "string \<Rightarrow> string list" where
  "fields x = split_on (CHR 0x09) (strip x)"

text \<open>The batches that \<open>islice(f, batch_size)\<close> reads until one is empty.\<close>

function chunks :: "nat \<Rightarrow> 'a list \<Rightarrow> 'a list list" where
  "chunks n xs = (if n = 0 \<or> xs = [] then [] else take n xs # chunks n (drop n xs))"
  by pat_completeness auto
termination
  by (relation "measure (\<lambda>(n, xs). length xs)") auto

declare chunks.simps [simp del]

text \<open>
  The common loop of the \<open>batch_add\<close> functions: each batch is parsed, which may raise,
  and then inserted.
\<close>

fun add_batches ::
  "insert_fn \<Rightarrow> bool \<Rightarrow> string \<Rightarrow> nat \<Rightarrow> (string \<Rightarrow> py_error + row) \<Rightarrow> string list list \<Rightarrow> database
   \<Rightarrow> py_error + database" where
  "add_batches ins or_ignore table k parse [] db = Inr db"
| "add_batches ins or_ignore table k parse (b # bs) db =
     (case those (map (\<lambda>l. case parse l of Inl e \<Rightarrow> None | Inr r \<Rightarrow> Some r) b) of
        None \<Rightarrow> Inl IndexError
      | Some batch \<Rightarrow>
          (case executemany ins or_ignore table k batch db of
             Inl e \<Rightarrow> Inl e
           | Inr db' \<Rightarrow> add_batches ins or_ignore table k parse bs db'))"

definition parse_plain :: "string \<Rightarrow> py_error + row" where
  "parse_plain x = Inr (map SqlText (fields x))"

text \<open>\<open>if row[i] == "None": row[i] = None\<close>, an IndexError when the row is too short.\<close>

definition none_at :: "nat \<Rightarrow> row \<Rightarrow> py_error + row" where
  "none_at i r =
     (if i < length r then Inr (if r ! i = SqlText ''None'' then r[i := SqlNull] else r)
      else Inl IndexError)"

fun none_at_all :: "nat list \<Rightarrow> row \<Rightarrow> py_error + row" where
  "none_at_all [] r = Inr r"
| "none_at_all (i # is) r = (case none_at i r of Inl e \<Rightarrow> Inl e | Inr r' \<Rightarrow> none_at_all is r')"

definition parse_transcript :: "string \<Rightarrow> py_error + row" where
  "parse_transcript x = none_at 3 (map SqlText (fields x))"

definition parse_observed :: "string \<Rightarrow> py_error + row" where
  "parse_observed x = none_at_all [9, 10, 12, 13, 14, 15, 16] (map SqlText (fields x))"

definition batch_add_genes :: "insert_fn \<Rightarrow> string \<Rightarrow> nat \<Rightarrow> database \<Rightarrow> py_error + database" where
  "batch_add_genes ins gene_file batch_size db =
     add_batches ins True ''genes'' 2 parse_plain (chunks batch_size (lines_of gene_file)) db"

definition batch_add_transcripts :: "insert_fn \<Rightarrow> string \<Rightarrow> nat \<Rightarrow> database \<Rightarrow> py_error + database" where
  "batch_add_transcripts ins transcript_file batch_size db =
     add_batches ins False ''transcripts'' 8 parse_transcript
       (chunks batch_size (lines_of transcript_file)) db"

definition batch_add_edges :: "insert_fn \<Rightarrow> string \<Rightarrow> nat \<Rightarrow> database \<Rightarrow> py_error + database" where
  "batch_add_edges ins edge_file batch_size db =
     add_batches ins False ''edge'' 5 parse_plain (chunks batch_size (lines_of edge_file)) db"

definition batch_add_locations :: "insert_fn \<Rightarrow> string \<Rightarrow> nat \<Rightarrow> database \<Rightarrow> py_error + database" where
  "batch_add_locations ins location_file batch_size db =
     add_batches ins False ''location'' 4 parse_plain (chunks batch_size (lines_of location_file)) db"

definition batch_add_vertex2gene :: "insert_fn \<Rightarrow> string \<Rightarrow> nat \<Rightarrow> database \<Rightarrow> py_error + database" where
  "batch_add_vertex2gene ins v2g_file batch_size db =
     add_batches ins True ''vertex'' 2 parse_plain (chunks batch_size (lines_of v2g_file)) db"

definition add_datasets :: "insert_fn \<Rightarrow> row list \<Rightarrow> database \<Rightarrow> py_error + database" where
  "add_datasets ins datasets db = executemany ins False ''dataset'' 4 datasets db"

definition batch_add_annotations ::
  "insert_fn \<Rightarrow> string \<Rightarrow> string \<Rightarrow> nat \<Rightarrow> database \<Rightarrow> py_error + database" where
  "batch_add_annotations ins annot_file annot_type batch_size db =
     (if annot_type \<notin> set [''gene'', ''transcript'', ''exon''] then Inl ValueError
      else add_batches ins True (annot_type @ ''_annotations'') 5 parse_plain
             (chunks 1 (lines_of annot_file)) db)"

text \<open>
  \<open>batch_add_observed\<close> also tallies the reads per dataset and transcript in a dict of
  dicts and inserts the tallies into \<open>abundance\<close>. The loop of \<open>batch_add_abundance\<close>
  advances by \<open>batch_size\<close>, so with a batch size of 0 and something to insert it never
  ends: the result is \<open>None\<close>.
\<close>

type_synonym abundance = "(sql_value \<times> (sql_value \<times> int) list) list"

definition abundance_add :: "row \<Rightarrow> abundance \<Rightarrow> abundance" where
  "abundance_add observed ab =
     (let dataset = observed ! 4;
          tid = observed ! 2;
          inner = (case map_of ab dataset of None \<Rightarrow> [] | Some i \<Rightarrow> i);
          c = (case map_of inner tid of None \<Rightarrow> 1 | Some c \<Rightarrow> c + 1) in
      dict_set dataset (dict_set tid c inner) ab)"

fun add_observed_batches ::
  "insert_fn \<Rightarrow> string list list \<Rightarrow> abundance \<Rightarrow> database \<Rightarrow> py_error + (abundance \<times> database)" where
  "add_observed_batches ins [] ab db = Inr (ab, db)"
| "add_observed_batches ins (b # bs) ab db =
     (case those (map (\<lambda>l. case parse_observed l of Inl e \<Rightarrow> None | Inr r \<Rightarrow> Some r) b) of
        None \<Rightarrow> Inl IndexError
      | Some batch \<Rightarrow>
          (case executemany ins False ''observed'' 17 batch db of
             Inl e \<Rightarrow> Inl e
           | Inr db' \<Rightarrow> add_observed_batches ins bs (fold abundance_add batch ab) db'))"

definition abundance_tuples :: "abundance \<Rightarrow> row list" where
  "abundance_tuples ab =
     concat (map (\<lambda>(dataset, inner). map (\<lambda>(tid, c). [tid, dataset, SqlInt c]) inner) ab)"

fun add_abundance_batches :: "insert_fn \<Rightarrow> row list list \<Rightarrow> database \<Rightarrow> py_error + database" where
  "add_abundance_batches ins [] db = Inr db"
| "add_abundance_batches ins (b # bs) db =
     (case executemany ins False ''abundance'' 3 b db of
        Inl e \<Rightarrow> Inl e
      | Inr db' \<Rightarrow> add_abundance_batches ins bs db')"

definition batch_add_abundance ::
  "insert_fn \<Rightarrow> row list \<Rightarrow> nat \<Rightarrow> database \<Rightarrow> (py_error + database) option" where
  "batch_add_abundance ins entries batch_size db =
     (if batch_size = 0 \<and> entries \<noteq> [] then None
      else Some (add_abundance_batches ins (chunks batch_size entries) db))"

definition batch_add_observed ::
  "insert_fn \<Rightarrow> string \<Rightarrow> nat \<Rightarrow> database \<Rightarrow> (py_error + database) option" where
  "batch_add_observed ins observed_file batch_size db =
     (case add_observed_batches ins (chunks batch_size (lines_of observed_file)) [] db of
        Inl e \<Rightarrow> Some (Inl e)
      | Inr (ab, db') \<Rightarrow> batch_add_abundance ins (abundance_tuples ab) batch_size db')"

text \<open>The final values of the six shared counters, and \<open>update_counter\<close>.\<close>

record counter_values =
  gene_counter :: "32 word"
  transcript_counter_v :: "32 word"
  vertex_counter_v :: "32 word"
  edge_counter_v :: "32 word"
  observed_counter :: "32 word"
  dataset_counter :: "32 word"

definition set_count :: "string \<Rightarrow> int \<Rightarrow> (string \<times> int) list \<Rightarrow> (string \<times> int) list" where
  "set_count category v cs = map (\<lambda>(c, n). if c = category then (c, v) else (c, n)) cs"

definition update_counter :: "counter_values \<Rightarrow> database \<Rightarrow> database" where
  "update_counter cv db =
     db\<lparr>counters :=
          set_count ''observed'' (sint (observed_counter cv))
         (set_count ''dataset'' (sint (dataset_counter cv))
         (set_count ''vertex'' (sint (vertex_counter_v cv))
         (set_count ''edge'' (sint (edge_counter_v cv))
         (set_count ''transcripts'' (sint (transcript_counter_v cv))
         (set_count ''genes'' (sint (gene_counter cv)) (counters db))))))\<rparr>"

text \<open>
  \<open>check_database_integrity\<close>: the loop over the rows of \<open>counters\<close> keeps the flag
  \<open>fail\<close> and the error log; counting a table that does not exist raises. The result is
  the error log and the exception raised, if any.
\<close>

definition table_of :: "string \<Rightarrow> string" where
  "table_of table_name = (if table_name = ''vertex'' then ''location'' else table_name)"

definition mismatch_msg :: "string \<Rightarrow> string" where
  "mismatch_msg table_name =
     ''Database counter for '' @ [CHR 0x27] @ table_name @ [CHR 0x27]
     @ '' does not match the number of entries in the table.''
     @ '' Discarding changes to database and exiting...''"

definition discrepancy_msg :: string where
  "discrepancy_msg = ''Discrepancy found in database. Discarding changes to database and exiting...''"

fun integrity_loop ::
  "database \<Rightarrow> (string \<times> int) list \<Rightarrow> bool \<times> string list \<Rightarrow> (bool \<times> string list) \<times> py_error option" where
  "integrity_loop db [] acc = (acc, None)"
| "integrity_loop db ((table_name, curr_counter) # rest) (fail, log) =
     (case tables db (table_of table_name) of
        None \<Rightarrow> ((fail, log), Some OperationalError)
      | Some rows \<Rightarrow>
          if int (length rows) \<noteq> curr_counter
          then integrity_loop db rest (True, log @ [mismatch_msg (table_of table_name)])
          else integrity_loop db rest (fail, log))"

definition check_database_integrity :: "database \<Rightarrow> string list \<times> py_error option" where
  "check_database_integrity db =
     (case integrity_loop db (counters db) (False, []) of
        ((fail, log), Some e) \<Rightarrow> (log, Some e)
      | ((fail, log), None) \<Rightarrow>
          if fail then (log @ [discrepancy_msg], Some RuntimeError) else (log, None))"

text \<open>The contents of the intermediate log files that \<open>update_database\<close> reads.\<close>

record outfile_texts =
  genes_text :: string
  transcripts_text :: string
  edges_text :: string
  location_text :: string
  v2g_text :: string
  observed_text :: string
  gene_annot_text :: string
  transcript_annot_text :: string
  exon_annot_text :: string

text \<open>
  Everything \<open>update_database\<close> does before the integrity check, on the working copy
  of the store that the connection holds until \<open>commit\<close>.
\<close>

fun and_then :: "py_error + 'a \<Rightarrow> ('a \<Rightarrow> (py_error + 'b) option) \<Rightarrow> (py_error + 'b) option" where
  "and_then (Inl e) f = Some (Inl e)"
| "and_then (Inr x) f = f x"

fun and_then_opt ::
  "(py_error + 'a) option \<Rightarrow> ('a \<Rightarrow> (py_error + 'b) option) \<Rightarrow> (py_error + 'b) option" where
  "and_then_opt None f = None"
| "and_then_opt (Some r) f = and_then r f"

definition load_all ::
  "insert_fn \<Rightarrow> database \<Rightarrow> nat \<Rightarrow> outfile_texts \<Rightarrow> row list \<Rightarrow> counter_values
   \<Rightarrow> (py_error + database) option" where
  "load_all ins db batch_size files datasets cv =
     and_then (batch_add_genes ins (genes_text files) batch_size db) (\<lambda>d1.
     and_then (batch_add_transcripts ins (transcripts_text files) batch_size d1) (\<lambda>d2.
     and_then (batch_add_edges ins (edges_text files) batch_size d2) (\<lambda>d3.
     and_then (batch_add_locations ins (location_text files) batch_size d3) (\<lambda>d4.
     and_then (batch_add_vertex2gene ins (v2g_text files) batch_size d4) (\<lambda>d5.
     and_then (add_datasets ins datasets d5) (\<lambda>d6.
     and_then_opt (batch_add_observed ins (observed_text files) batch_size d6) (\<lambda>d7.
     and_then (batch_add_annotations ins (gene_annot_text files) ''gene'' batch_size
                 (update_counter cv d7)) (\<lambda>d8.
     and_then (batch_add_annotations ins (transcript_annot_text files) ''transcript'' batch_size d8) (\<lambda>d9.
     and_then (batch_add_annotations ins (exon_annot_text files) ''exon'' batch_size d9) (\<lambda>d10.
     Some (Inr d10)))))))))))"

text \<open>
  \<open>update_database\<close>: the result is \<open>None\<close> when the call does not return, else the
  error log with either the exception that ended the call or the store that
  \<open>conn.commit()\<close> made persistent. Without a commit the persistent store stays as it
  was.
\<close>

definition update_database ::
  "insert_fn \<Rightarrow> database \<Rightarrow> nat \<Rightarrow> outfile_texts \<Rightarrow> row list \<Rightarrow> counter_values
   \<Rightarrow> (string list \<times> (py_error + database)) option" where
  "update_database ins db batch_size files datasets cv =
     (case load_all ins db batch_size files datasets cv of
        None \<Rightarrow> None
      | Some (Inl e) \<Rightarrow> Some ([], Inl e)
      | Some (Inr working) \<Rightarrow>
          (case check_database_integrity working of
             (log, Some e) \<Rightarrow> Some (log, Inl e)
           | (log, None) \<Rightarrow> Some (log, Inr working)))"

definition store_after :: "database \<Rightarrow> (string list \<times> (py_error + database)) option \<Rightarrow> database" where
  "store_after db r = (case r of Some (log, Inr db') \<Rightarrow> db' | _ \<Rightarrow> db)"

section \<open>The listener and the end of the run\<close>

text \<open>
  The paths of the output files, and the file system as a map from a path to the text of
  the file. A message on the queue is a file name and a string; with it comes the
  reading of \<open>datetime.now()\<close>, in seconds, at the moment the listener tests it. The
  message that ends the run is \<open>(None, "complete")\<close>.
\<close>

record outfiles =
  qc_path :: string
  abundance_path :: string
  genes_path :: string
  transcripts_path :: string
  edges_path :: string
  v2g_path :: string
  location_path :: string
  observed_path :: string
  gene_annot_path :: string
  transcript_annot_path :: string
  exon_annot_path :: string

definition outfile_values :: "outfiles \<Rightarrow> string list" where
  "outfile_values out =
     [qc_path out, abundance_path out, genes_path out, transcripts_path out, edges_path out, v2g_path out,
      location_path out, observed_path out, gene_annot_path out, transcript_annot_path out, exon_annot_path out]"

type_synonym file_system = "string \<rightharpoonup> string"

type_synonym event = "int \<times> string option \<times> string"

text \<open>
  The \<open>while True\<close> loop of \<open>listener\<close>. \<open>queue.get()\<close> on an exhausted queue blocks
  for ever: the result is \<open>None\<close>. Otherwise the result is the exception that ended the
  loop, if any, and the files.
\<close>

fun listener_loop ::
  "int \<Rightarrow> string list \<Rightarrow> event list \<Rightarrow> file_system \<Rightarrow> (py_error option \<times> file_system) option" where
  "listener_loop wait_until opened [] fs = None"
| "listener_loop wait_until opened ((now, msg_fname, msg_value) # rest) fs =
     (if now > wait_until \<or> msg_value = ''complete'' then Some (None, fs)
      else case msg_fname of
        None \<Rightarrow> Some (Some KeyError, fs)
      | Some p \<Rightarrow>
          if p \<in> set opened
          then listener_loop wait_until opened rest
                 (fs(p \<mapsto> (case fs p of None \<Rightarrow> [] | Some t \<Rightarrow> t) @ msg_value @ [CHR 0x0A]))
          else Some (Some KeyError, fs))"

definition listener ::
  "outfiles \<Rightarrow> string \<Rightarrow> int \<Rightarrow> int \<Rightarrow> event list \<Rightarrow> file_system
   \<Rightarrow> (py_error option \<times> file_system) option" where
  "listener out QC_header start timeout events fs =
     (let opened = outfile_values out;
          fs1 = fold (\<lambda>p f. f(p \<mapsto> [])) opened fs;
          fs2 = fs1(qc_path out \<mapsto> QC_header @ [CHR 0x0A]);
          wait_until = start + 3600 * timeout in
      listener_loop wait_until opened events fs2)"

definition read_outfiles :: "file_system \<Rightarrow> outfiles \<Rightarrow> py_error + outfile_texts" where
  "read_outfiles fs out =
     (case those (map fs [genes_path out, transcripts_path out, edges_path out, location_path out, v2g_path out,
                          observed_path out, gene_annot_path out, transcript_annot_path out, exon_annot_path out]) of
        Some [g, t, e, l, v, ob, ga, ta, ea] \<Rightarrow>
          Inr \<lparr>genes_text = g, transcripts_text = t, edges_text = e, location_text = l,
               v2g_text = v, observed_text = ob, gene_annot_text = ga,
               transcript_annot_text = ta, exon_annot_text = ea\<rparr>
      | _ \<Rightarrow> Inl FileNotFoundError)"

text \<open>
  The end of \<open>main\<close>. The listener runs as a task of the pool whose result is never
  read; the workers' messages are \<open>events\<close>; when the workers are done \<open>main\<close> puts
  the message \<open>complete\<close>, waits for the pool and calls \<open>update_database\<close> with a batch
  size of 10000 on the files as the listener left them.
\<close>

definition main_run ::
  "insert_fn \<Rightarrow> database \<Rightarrow> file_system \<Rightarrow> outfiles \<Rightarrow> string \<Rightarrow> int \<Rightarrow> int \<Rightarrow> event list \<Rightarrow> int
   \<Rightarrow> row list \<Rightarrow> counter_values \<Rightarrow> (string list \<times> (py_error + database)) option" where
  "main_run ins db fs out QC_header start timeout events t_complete datasets cv =
     (case listener out QC_header start timeout (events @ [(t_complete, None, ''complete'')]) fs of
        None \<Rightarrow> None
      | Some (err, fs') \<Rightarrow>
          (case read_outfiles fs' out of
             Inl e \<Rightarrow> Some ([], Inl e)
           | Inr texts \<Rightarrow> update_database ins db 10000 texts datasets cv))"

definition committed :: "(string list \<times> (py_error + database)) option \<Rightarrow> bool" where
  "committed r = (case r of Some (log, Inr db') \<Rightarrow> True | _ \<Rightarrow> False)"

section \<open>Example inputs\<close>

text \<open>
  A read-through read: vertices 1 and 2 belong to gene 10, vertex 3 to gene 20, all on the
  plus strand. And a read with one splice site that genes 10 and 20 share.
\<close>

definition v2g_readthrough :: vertex_2_gene where
  "v2g_readthrough = [1 \<mapsto> [(10, ''+'')], 2 \<mapsto> [(10, ''+'')], 3 \<mapsto> [(20, ''+'')]]"

definition v2g_shared_site :: vertex_2_gene where
  "v2g_shared_site = [1 \<mapsto> [(10, ''+''), (20, ''+'')]]"

text \<open>
  The specification's example of a full splice match: a known two-exon transcript 42 of
  gene 7 on chr1 with edges 1, 2, 3 over the vertices 1 to 4 at 100, 200, 300 and 400, and
  cutoffs of 50 at both ends.
\<close>

definition fsm_transcript :: transcript where
  "fsm_transcript = \<lparr>transcript_ID = 42, gene_ID = 7, jn_path = Some ''2'',
     start_exon = 1, end_exon = 3, start_vertex = 1, end_vertex = 4, n_exons = 2,
     t_chromosome = ''chr1'', start_pos = 100, end_pos = 400\<rparr>"

definition ex_run_info :: run_info where
  "ex_run_info = \<lparr>build = ''hg38'', cutoff_5p = 50, cutoff_3p = 50, idprefix = ''TALON''\<rparr>"

definition ex_locations :: location_dict where
  "ex_locations = [''chr1'' \<mapsto>
     [100 \<mapsto> \<lparr>location_ID = 1, genome_build = ''hg38'', v_chromosome = ''chr1'', v_position = 100\<rparr>,
      200 \<mapsto> \<lparr>location_ID = 2, genome_build = ''hg38'', v_chromosome = ''chr1'', v_position = 200\<rparr>,
      300 \<mapsto> \<lparr>location_ID = 3, genome_build = ''hg38'', v_chromosome = ''chr1'', v_position = 300\<rparr>,
      400 \<mapsto> \<lparr>location_ID = 4, genome_build = ''hg38'', v_chromosome = ''chr1'', v_position = 400\<rparr>]]"

definition ex_edges :: edge_dict where
  "ex_edges =
     [(1, 2, ''exon'') \<mapsto> \<lparr>edge_ID = 1, v1 = 1, v2 = 2, edge_type = ''exon'', e_strand = ''+''\<rparr>,
      (2, 3, ''intron'') \<mapsto> \<lparr>edge_ID = 2, v1 = 2, v2 = 3, edge_type = ''intron'', e_strand = ''+''\<rparr>,
      (3, 4, ''exon'') \<mapsto> \<lparr>edge_ID = 3, v1 = 3, v2 = 4, edge_type = ''exon'', e_strand = ''+''\<rparr>]"

definition fsm_state :: graph_state where
  "fsm_state = \<lparr>locations = ex_locations, edges = ex_edges,
     transcripts = [({1, 2, 3}, fsm_transcript)],
     tmp_t = [\<lparr>r_gene_ID = 7, r_transcript_ID = 42, r_chromosome = ''chr1'', r_strand = ''+'',
               min_pos = 100, max_pos = 400\<rparr>],
     vertex_counter = 4, edge_counter = 3, transcript_counter = 42\<rparr>"

text \<open>
  A second known transcript of gene 7: transcript 43 starts upstream, at vertex 5 at
  position 20 with the first exon edge 4, and shares the junction and the last exon with
  transcript 42.
\<close>

definition alt_transcript :: transcript where
  "alt_transcript = \<lparr>transcript_ID = 43, gene_ID = 7, jn_path = Some ''2'',
     start_exon = 4, end_exon = 3, start_vertex = 5, end_vertex = 4, n_exons = 2,
     t_chromosome = ''chr1'', start_pos = 20, end_pos = 400\<rparr>"

definition alt_state :: graph_state where
  "alt_state = \<lparr>
     locations = [''chr1'' \<mapsto>
       [100 \<mapsto> \<lparr>location_ID = 1, genome_build = ''hg38'', v_chromosome = ''chr1'', v_position = 100\<rparr>,
        200 \<mapsto> \<lparr>location_ID = 2, genome_build = ''hg38'', v_chromosome = ''chr1'', v_position = 200\<rparr>,
        300 \<mapsto> \<lparr>location_ID = 3, genome_build = ''hg38'', v_chromosome = ''chr1'', v_position = 300\<rparr>,
        400 \<mapsto> \<lparr>location_ID = 4, genome_build = ''hg38'', v_chromosome = ''chr1'', v_position = 400\<rparr>,
        20 \<mapsto> \<lparr>location_ID = 5, genome_build = ''hg38'', v_chromosome = ''chr1'', v_position = 20\<rparr>]],
     edges = ex_edges((5, 2, ''exon'') \<mapsto>
       \<lparr>edge_ID = 4, v1 = 5, v2 = 2, edge_type = ''exon'', e_strand = ''+''\<rparr>),
     transcripts = [({1, 2, 3}, fsm_transcript), ({4, 2, 3}, alt_transcript)],
     tmp_t = [\<lparr>r_gene_ID = 7, r_transcript_ID = 42, r_chromosome = ''chr1'', r_strand = ''+'',
               min_pos = 100, max_pos = 400\<rparr>,
              \<lparr>r_gene_ID = 7, r_transcript_ID = 43, r_chromosome = ''chr1'', r_strand = ''+'',
               min_pos = 20, max_pos = 400\<rparr>],
     vertex_counter = 5, edge_counter = 4, transcript_counter = 43\<rparr>"

text \<open>
  A transcript table for the overlap search: genes 1 and 2 on the plus strand and gene 3
  on the minus strand span the read interval 110 to 490 of chr1; gene 4 lies far
  downstream of it.
\<close>

definition overlap_table :: "t_row list" where
  "overlap_table =
     [\<lparr>r_gene_ID = 1, r_transcript_ID = 11, r_chromosome = ''chr1'', r_strand = ''+'', min_pos = 100, max_pos = 500\<rparr>,
      \<lparr>r_gene_ID = 2, r_transcript_ID = 12, r_chromosome = ''chr1'', r_strand = ''+'', min_pos = 120, max_pos = 480\<rparr>,
      \<lparr>r_gene_ID = 3, r_transcript_ID = 13, r_chromosome = ''chr1'', r_strand = ''-'', min_pos = 110, max_pos = 490\<rparr>,
      \<lparr>r_gene_ID = 4, r_transcript_ID = 14, r_chromosome = ''chr1'', r_strand = ''+'', min_pos = 1000, max_pos = 2000\<rparr>]"

definition far_row :: t_row where
  "far_row = \<lparr>r_gene_ID = 4, r_transcript_ID = 14, r_chromosome = ''chr1'', r_strand = ''+'', min_pos = 1000, max_pos = 2000\<rparr>"

text \<open>The gene, the transcript and the novelty rows of a result, without the end info and the state.\<close>

definition outcome :: "py_error + (match_result \<times> graph_state) \<Rightarrow> py_error + (int option \<times> int option \<times> annot list)" where
  "outcome r = (case r of Inl e \<Rightarrow> Inl e | Inr ((g, tid, novelty, info), s) \<Rightarrow> Inr (g, tid, novelty))"

text \<open>
  Two known four-exon transcripts on chr1 that share their first three exons and so the
  junction path 5,6,7,8: transcript 42 of gene 7 ends at 800, transcript 43 of gene 8 at
  5000. The read used with them has three exons, the interior edges 5, 6, 7 and ends at
  100 and 590.
\<close>

definition ism_t1 :: transcript where
  "ism_t1 = \<lparr>transcript_ID = 42, gene_ID = 7, jn_path = Some ''5,6,7,8,9'',
     start_exon = 1, end_exon = 10, start_vertex = 1, end_vertex = 8, n_exons = 4,
     t_chromosome = ''chr1'', start_pos = 100, end_pos = 800\<rparr>"

definition ism_t2 :: transcript where
  "ism_t2 = \<lparr>transcript_ID = 43, gene_ID = 8, jn_path = Some ''5,6,7,8,11'',
     start_exon = 1, end_exon = 12, start_vertex = 1, end_vertex = 10, n_exons = 4,
     t_chromosome = ''chr1'', start_pos = 100, end_pos = 5000\<rparr>"

definition ism_locations :: location_dict where
  "ism_locations = [''chr1'' \<mapsto>
     [100 \<mapsto> \<lparr>location_ID = 1, genome_build = ''hg38'', v_chromosome = ''chr1'', v_position = 100\<rparr>,
      200 \<mapsto> \<lparr>location_ID = 2, genome_build = ''hg38'', v_chromosome = ''chr1'', v_position = 200\<rparr>,
      300 \<mapsto> \<lparr>location_ID = 3, genome_build = ''hg38'', v_chromosome = ''chr1'', v_position = 300\<rparr>,
      400 \<mapsto> \<lparr>location_ID = 4, genome_build = ''hg38'', v_chromosome = ''chr1'', v_position = 400\<rparr>,
      500 \<mapsto> \<lparr>location_ID = 5, genome_build = ''hg38'', v_chromosome = ''chr1'', v_position = 500\<rparr>,
      600 \<mapsto> \<lparr>location_ID = 6, genome_build = ''hg38'', v_chromosome = ''chr1'', v_position = 600\<rparr>,
      700 \<mapsto> \<lparr>location_ID = 7, genome_build = ''hg38'', v_chromosome = ''chr1'', v_position = 700\<rparr>,
      800 \<mapsto> \<lparr>location_ID = 8, genome_build = ''hg38'', v_chromosome = ''chr1'', v_position = 800\<rparr>,
      4000 \<mapsto> \<lparr>location_ID = 9, genome_build = ''hg38'', v_chromosome = ''chr1'', v_position = 4000\<rparr>,
      5000 \<mapsto> \<lparr>location_ID = 10, genome_build = ''hg38'', v_chromosome = ''chr1'', v_position = 5000\<rparr>]]"

definition ism_edges :: edge_dict where
  "ism_edges =
     [(1, 2, ''exon'') \<mapsto> \<lparr>edge_ID = 1, v1 = 1, v2 = 2, edge_type = ''exon'', e_strand = ''+''\<rparr>,
      (2, 3, ''intron'') \<mapsto> \<lparr>edge_ID = 5, v1 = 2, v2 = 3, edge_type = ''intron'', e_strand = ''+''\<rparr>,
      (3, 4, ''exon'') \<mapsto> \<lparr>edge_ID = 6, v1 = 3, v2 = 4, edge_type = ''exon'', e_strand = ''+''\<rparr>,
      (4, 5, ''intron'') \<mapsto> \<lparr>edge_ID = 7, v1 = 4, v2 = 5, edge_type = ''intron'', e_strand = ''+''\<rparr>,
      (5, 6, ''exon'') \<mapsto> \<lparr>edge_ID = 8, v1 = 5, v2 = 6, edge_type = ''exon'', e_strand = ''+''\<rparr>,
      (6, 7, ''intron'') \<mapsto> \<lparr>edge_ID = 9, v1 = 6, v2 = 7, edge_type = ''intron'', e_strand = ''+''\<rparr>,
      (7, 8, ''exon'') \<mapsto> \<lparr>edge_ID = 10, v1 = 7, v2 = 8, edge_type = ''exon'', e_strand = ''+''\<rparr>,
      (6, 9, ''intron'') \<mapsto> \<lparr>edge_ID = 11, v1 = 6, v2 = 9, edge_type = ''intron'', e_strand = ''+''\<rparr>,
      (9, 10, ''exon'') \<mapsto> \<lparr>edge_ID = 12, v1 = 9, v2 = 10, edge_type = ''exon'', e_strand = ''+''\<rparr>]"

definition ism_state :: graph_state where
  "ism_state = \<lparr>locations = ism_locations, edges = ism_edges,
     transcripts = [({1, 5, 6, 7, 8, 9, 10}, ism_t1), ({1, 5, 6, 7, 8, 11, 12}, ism_t2)],
     tmp_t = [\<lparr>r_gene_ID = 7, r_transcript_ID = 42, r_chromosome = ''chr1'', r_strand = ''+'',
               min_pos = 100, max_pos = 800\<rparr>,
              \<lparr>r_gene_ID = 8, r_transcript_ID = 43, r_chromosome = ''chr1'', r_strand = ''+'',
               min_pos = 100, max_pos = 5000\<rparr>],
     vertex_counter = 10, edge_counter = 12, transcript_counter = 43\<rparr>"

text \<open>Every table that a row of \<open>counters\<close> names exists.\<close>

definition all_present :: "database \<Rightarrow> (string \<times> int) list \<Rightarrow> bool" where
  "all_present db cs = list_all (\<lambda>p. tables db (table_of (fst p)) \<noteq> None) cs"

text \<open>
  A store without constraints, where an INSERT appends the row. It holds one gene and
  its counters agree with its tables. With it: log files without a line, final counter
  values that agree with the store, values whose gene counter is one too high, and the
  values and the dataset row of a run that registers one dataset.
\<close>

definition append_insert :: insert_fn where
  "append_insert or_ignore table rows r = Some (rows @ [r])"

definition empty_files :: outfile_texts where
  "empty_files = \<lparr>genes_text = [], transcripts_text = [], edges_text = [], location_text = [],
     v2g_text = [], observed_text = [], gene_annot_text = [], transcript_annot_text = [],
     exon_annot_text = []\<rparr>"

definition db_ex :: database where
  "db_ex = \<lparr>tables =
       [''genes'' \<mapsto> [[SqlInt 1, SqlText ''+'']], ''transcripts'' \<mapsto> [], ''edge'' \<mapsto> [],
        ''location'' \<mapsto> [], ''vertex'' \<mapsto> [], ''dataset'' \<mapsto> [], ''observed'' \<mapsto> [],
        ''abundance'' \<mapsto> [], ''gene_annotations'' \<mapsto> [], ''transcript_annotations'' \<mapsto> [],
        ''exon_annotations'' \<mapsto> []],
     counters = [(''genes'', 1), (''transcripts'', 0), (''vertex'', 0), (''edge'', 0),
                 (''dataset'', 0), (''observed'', 0)]\<rparr>"

definition cv_ok :: counter_values where
  "cv_ok = \<lparr>gene_counter = 1, transcript_counter_v = 0, vertex_counter_v = 0,
            edge_counter_v = 0, observed_counter = 0, dataset_counter = 0\<rparr>"

definition cv_bad :: counter_values where
  "cv_bad = \<lparr>gene_counter = 2, transcript_counter_v = 0, vertex_counter_v = 0,
             edge_counter_v = 0, observed_counter = 0, dataset_counter = 0\<rparr>"

definition cv_run :: counter_values where
  "cv_run = \<lparr>gene_counter = 1, transcript_counter_v = 0, vertex_counter_v = 0,
             edge_counter_v = 0, observed_counter = 0, dataset_counter = 1\<rparr>"

definition ex_outfiles :: outfiles where
  "ex_outfiles = \<lparr>qc_path = ''talon_QC.log'', abundance_path = ''tmp/abundance_tuples.tsv'',
     genes_path = ''tmp/gene_tuples.tsv'', transcripts_path = ''tmp/transcript_tuples.tsv'',
     edges_path = ''tmp/edge_tuples.tsv'', v2g_path = ''tmp/vertex_2_gene_tuples.tsv'',
     location_path = ''tmp/location_tuples.tsv'', observed_path = ''tmp/observed_transcript_tuples.tsv'',
     gene_annot_path = ''tmp/gene_annot_tuples.tsv'',
     transcript_annot_path = ''tmp/transcript_annot_tuples.tsv'',
     exon_annot_path = ''tmp/exon_annot_tuples.tsv''\<rparr>"

definition ex_dataset :: row where
  "ex_dataset = [SqlInt 1, SqlText ''d1'', SqlText ''sample'', SqlText ''PacBio'']"

text \<open>
  Log files of a run that found one new gene and one new vertex: the gene log holds the
  line of gene 2 on the plus strand, the location log the line of vertex 1 at position 100
  of chr1. And the final counter values that agree with the store after these lines and
  one dataset have been loaded.
\<close>

definition loaded_files :: outfile_texts where
  "loaded_files = \<lparr>genes_text = ''2'' @ [CHR 0x09] @ ''+'' @ [CHR 0x0A],
     transcripts_text = [], edges_text = [],
     location_text = ''1'' @ [CHR 0x09] @ ''hg38'' @ [CHR 0x09] @ ''chr1'' @ [CHR 0x09] @ ''100''
                     @ [CHR 0x0A],
     v2g_text = [], observed_text = [], gene_annot_text = [], transcript_annot_text = [],
     exon_annot_text = []\<rparr>"

definition cv_loaded :: counter_values where
  "cv_loaded = \<lparr>gene_counter = 2, transcript_counter_v = 0, vertex_counter_v = 1,
                edge_counter_v = 0, observed_counter = 0, dataset_counter = 1\<rparr>"

section \<open>Theorems\<close>

subsection \<open>Two-exon reads and the novelty predicates\<close>

text \<open>
  C10. For a read with exactly two exons the interior edge-novelty list has the single
  intron entry \<open>x\<close>. Then \<open>check_all_exons_novel\<close> returns the integer 0, which is falsy,
  so the NNC branch is taken exactly when the splice vertices are not all known and the
  read is not a fusion: the all-exons-novel condition never excludes it. In the same
  case \<open>check_all_SJs_known\<close> and \<open>check_all_exons_known\<close> both test that single entry.
\<close>

theorem two_exon_read_novelty_predicates:
  "check_all_exons_novel [x] = PyInt 0
   \<and> \<not> truthy (check_all_exons_novel [x])
   \<and> nnc_branch_taken svk gene_none fusion (check_all_exons_novel [x]) = (\<not> svk \<and> \<not> fusion)
   \<and> check_all_SJs_known [x] = (x = 0)
   \<and> check_all_exons_known [x] = (x = 0)"
  by (auto simp: check_all_exons_novel_def check_all_SJs_known_def
      check_all_exons_known_def nnc_branch_taken_def)

subsection \<open>Gene assignment on vertex basis\<close>

lemma collect_gene_matches_fst:
  "fst (collect_gene_matches v2g strand vs) =
     concat (map (\<lambda>v. map fst (strand_matches v2g strand v)) vs)"
  by (induction vs) (auto simp: strand_matches_def split: prod.splits option.splits)

lemma collect_gene_matches_snd:
  "snd (collect_gene_matches v2g strand vs) =
     map (\<lambda>v. length (strand_matches v2g strand v)) (filter (\<lambda>v. v2g v \<noteq> None) vs)"
  by (induction vs) (auto simp: strand_matches_def split: prod.splits option.splits)

lemma set_collect_gene_matches:
  "set (fst (collect_gene_matches v2g strand vs)) = matched_genes v2g strand vs"
  by (auto simp: collect_gene_matches_fst matched_genes_def)

lemma fold_max_le: "fold max ns (a::nat) \<le> k \<longleftrightarrow> a \<le> k \<and> (\<forall>n\<in>set ns. n \<le> k)"
  by (induction ns arbitrary: a) auto

lemma py_max_le: "py_max ns \<le> k \<longleftrightarrow> (\<forall>n\<in>set ns. n \<le> k)"
  by (simp add: py_max_def fold_max_le)

lemma length_gene_tally: "length (gene_tally gm) = card (set gm)"
  by (simp add: gene_tally_def length_remdups_card_conv)

lemma strand_matches_None: "v2g v = None \<Longrightarrow> strand_matches v2g strand v = []"
  by (simp add: strand_matches_def)

lemma n_gene_matches_le:
  "(\<forall>n\<in>set (snd (collect_gene_matches v2g strand vs)). n \<le> k)
   \<longleftrightarrow> (\<forall>v\<in>set vs. length (strand_matches v2g strand v) \<le> k)"
proof
  assume a: "\<forall>n\<in>set (snd (collect_gene_matches v2g strand vs)). n \<le> k"
  show "\<forall>v\<in>set vs. length (strand_matches v2g strand v) \<le> k"
  proof
    fix v assume v: "v \<in> set vs"
    show "length (strand_matches v2g strand v) \<le> k"
    proof (cases "v2g v")
      case None
      then show ?thesis by (simp add: strand_matches_None)
    next
      case (Some y)
      with a v show ?thesis by (auto simp: collect_gene_matches_snd)
    qed
  qed
next
  assume "\<forall>v\<in>set vs. length (strand_matches v2g strand v) \<le> k"
  then show "\<forall>n\<in>set (snd (collect_gene_matches v2g strand vs)). n \<le> k"
    by (auto simp: collect_gene_matches_snd)
qed

text \<open>
  C1, as the specification states it, fails on the code. In the read-through example
  two genes match and gene 10 owns two of the read's vertices, yet the function returns
  no gene with the fusion flag set. In the shared-site example two genes match and
  neither owns two vertices, yet the function returns both genes as candidates with the
  fusion flag clear.
\<close>

theorem fusion_rule_counterexample:
  "find_gene_match_on_vertex_basis [1, 2, 3] ''+'' v2g_readthrough = Inr (NoGene, True)
   \<and> card (matched_genes v2g_readthrough ''+'' [1, 2, 3]) = 2
   \<and> vertices_owned v2g_readthrough ''+'' [1, 2, 3] 10 = 2
   \<and> find_gene_match_on_vertex_basis [1] ''+'' v2g_shared_site = Inr (Candidates [10, 20], False)
   \<and> card (matched_genes v2g_shared_site ''+'' [1]) = 2
   \<and> vertices_owned v2g_shared_site ''+'' [1] 10 = 1
   \<and> vertices_owned v2g_shared_site ''+'' [1] 20 = 1"
  unfolding v2g_readthrough_def v2g_shared_site_def by code_simp

text \<open>
  C1, amended. When same-strand vertex matches are found in more than one gene, the
  function decides on the number of same-strand gene entries of each vertex: if no
  vertex of the read has more than one (the matched genes share no splice site), it
  returns no gene and fusion = True; if some vertex has two or more (the genes share a
  splice site), it returns the set of matched genes as candidates with fusion = False.
\<close>

theorem fusion_rule_per_vertex:
  assumes "card (matched_genes v2g strand vs) > 1"
  shows "((\<forall>v\<in>set vs. length (strand_matches v2g strand v) \<le> 1) \<longrightarrow>
            find_gene_match_on_vertex_basis vs strand v2g = Inr (NoGene, True))
       \<and> ((\<exists>v\<in>set vs. length (strand_matches v2g strand v) \<ge> 2) \<longrightarrow>
            (\<exists>gs. find_gene_match_on_vertex_basis vs strand v2g = Inr (Candidates gs, False)
                  \<and> set gs = matched_genes v2g strand vs))"
proof -
  obtain gm ns where c: "collect_gene_matches v2g strand vs = (gm, ns)" by force
  have gm: "set gm = matched_genes v2g strand vs"
    using set_collect_gene_matches[of v2g strand vs] c by simp
  have ns: "py_max ns \<le> 1 \<longleftrightarrow> (\<forall>v\<in>set vs. length (strand_matches v2g strand v) \<le> 1)"
    using n_gene_matches_le[of v2g strand vs 1] c by (simp add: py_max_le)
  have len: "length (gene_tally gm) > 1" using assms gm by (simp add: length_gene_tally)
  have ne: "length gm \<noteq> 0" using assms gm by auto
  have keys: "set (map fst (gene_tally gm)) = set gm" by (auto simp: gene_tally_def)
  have fusion: "(\<forall>v\<in>set vs. length (strand_matches v2g strand v) \<le> 1) \<longrightarrow>
           find_gene_match_on_vertex_basis vs strand v2g = Inr (NoGene, True)"
    using c ns len ne by (simp add: find_gene_match_on_vertex_basis_def)
  have cands: "(\<exists>v\<in>set vs. length (strand_matches v2g strand v) \<ge> 2) \<longrightarrow>
           (\<exists>gs. find_gene_match_on_vertex_basis vs strand v2g = Inr (Candidates gs, False)
              \<and> set gs = matched_genes v2g strand vs)"
  proof
    assume "\<exists>v\<in>set vs. length (strand_matches v2g strand v) \<ge> 2"
    then have "\<not> py_max ns \<le> 1" using ns by fastforce
    then show "\<exists>gs. find_gene_match_on_vertex_basis vs strand v2g = Inr (Candidates gs, False)
              \<and> set gs = matched_genes v2g strand vs"
      using c len ne keys gm by (simp add: find_gene_match_on_vertex_basis_def)
  qed
  from fusion cands show ?thesis by blast
qed

theorem fusion_rule_per_vertex_witness:
  "find_gene_match_on_vertex_basis [3, 4] ''+'' [3 \<mapsto> [(10, ''+'')], 4 \<mapsto> [(20, ''+'')]]
     = Inr (NoGene, True)
   \<and> (\<exists>gs. find_gene_match_on_vertex_basis [1] ''+'' v2g_shared_site = Inr (Candidates gs, False)
           \<and> set gs = matched_genes v2g_shared_site ''+'' [1])"
proof -
  have h1: "card (matched_genes [3 \<mapsto> [(10, ''+'')], 4 \<mapsto> [(20, ''+'')]] ''+'' [3, 4]) > 1"
    by code_simp
  have p1: "\<forall>v\<in>set [3, 4]. length (strand_matches [3 \<mapsto> [(10, ''+'')], 4 \<mapsto> [(20, ''+'')]] ''+'' v) \<le> 1"
    by (simp add: strand_matches_def)
  have h2: "card (matched_genes v2g_shared_site ''+'' [1]) > 1"
    unfolding v2g_shared_site_def by code_simp
  have p2: "\<exists>v\<in>set [1]. length (strand_matches v2g_shared_site ''+'' v) \<ge> 2"
    by (simp add: strand_matches_def v2g_shared_site_def)
  show ?thesis
    using fusion_rule_per_vertex[OF h1] fusion_rule_per_vertex[OF h2] p1 p2 by blast
qed

subsection \<open>The end-processing functions return\<close>

lemma compute_delta_valid:
  "strand = ''+'' \<or> strand = ''-'' \<Longrightarrow> \<exists>d. compute_delta a b strand = Inr d"
  by (auto simp: compute_delta_def Let_def)

lemma scan_offsets_returns:
  "strand = ''+'' \<or> strand = ''-'' \<Longrightarrow>
   \<exists>r. scan_offsets chrom p strand locs dp ws we ds = Inr r"
proof (induction ds)
  case Nil
  then show ?case by simp
next
  case (Cons d ds)
  from Cons.prems obtain x where x: "compute_delta (p + d * dp) p strand = Inr x"
    using compute_delta_valid by blast
  from Cons.prems obtain y where y: "compute_delta (p - d * dp) p strand = Inr y"
    using compute_delta_valid by blast
  from Cons show ?case
    by (auto simp: Let_def x y split: option.splits)
qed

lemma permissive_vertex_search_returns:
  assumes "strand = ''+'' \<or> strand = ''-''" and "pt = ''start'' \<or> pt = ''end''"
  shows "\<exists>r. permissive_vertex_search chrom p strand sj pt locs ri = Inr r"
  using assms scan_offsets_returns[OF assms(1)]
  by (auto simp: permissive_vertex_search_def Let_def split: option.splits)

lemma closest_gene_loc_returns:
  "strand = ''+'' \<or> strand = ''-'' \<Longrightarrow>
   \<exists>r. closest_gene_loc p strand ws we known acc = Inr r"
proof (induction known arbitrary: acc)
  case Nil
  then show ?case by (cases acc) simp
next
  case (Cons k known)
  obtain kl v where k: "k = (kl, v)" by force
  obtain a b c where acc: "acc = (a, b, c)" by (metis prod_cases3)
  from Cons.prems obtain x where x: "compute_delta kl p strand = Inr x"
    using compute_delta_valid by blast
  from Cons show ?case unfolding k acc
    by (auto simp: x)
qed

lemma permissive_match_with_gene_priority_returns:
  assumes "strand = ''+'' \<or> strand = ''-''" and "pt = ''start'' \<or> pt = ''end''"
  shows "\<exists>r. permissive_match_with_gene_priority chrom p strand sj pt g gl locs ri = Inr r"
proof -
  obtain r where r: "permissive_vertex_search chrom p strand sj pt locs ri = Inr r"
    using permissive_vertex_search_returns[OF assms] by blast
  have c: "\<And>ws we known acc. \<exists>r. closest_gene_loc p strand ws we known acc = Inr r"
    using closest_gene_loc_returns[OF assms(1)] by blast
  show ?thesis
  proof (cases "search_for_vertex_at_pos chrom p locs")
    case (Some m)
    with assms show ?thesis
      by (auto simp: permissive_match_with_gene_priority_def split: option.splits)
  next
    case None
    show ?thesis
    proof (cases "gl g")
      case N2: None
      with None assms r show ?thesis
        by (cases r) (auto simp: permissive_match_with_gene_priority_def Let_def)
    next
      case (Some known)
      obtain ws we where w: "(if (strand = ''+'' \<and> pt = ''start'') \<or> (strand = ''-'' \<and> pt = ''end'')
                     then (p - (if pt = ''start'' then cutoff_5p ri else cutoff_3p ri), sj) else (sj, p + (if pt = ''start'' then cutoff_5p ri else cutoff_3p ri))) = (ws, we)"
        by force
      obtain a b cc where cl: "closest_gene_loc p strand ws we known ((if pt = ''start'' then cutoff_5p ri else cutoff_3p ri) + 1, None, None) = Inr (a, b, cc)"
        using c by (metis prod_cases3)
      from None Some assms r w cl show ?thesis
        by (cases r) (auto simp: permissive_match_with_gene_priority_def Let_def)
    qed
  qed
qed

lemma index0_hd: "xs \<noteq> [] \<Longrightarrow> index0 xs = Inr (hd xs)"
  by (cases xs) (auto simp: index0_def)

lemma index_last_last: "xs \<noteq> [] \<Longrightarrow> index_last xs = Inr (last xs)"
  by (simp add: index_last_def index0_hd hd_rev)

lemma index1_some: "length xs \<ge> 2 \<Longrightarrow> \<exists>y. index1 xs = Inr y"
  by (cases xs; cases "tl xs") (auto simp: index1_def)

lemma index_last2_some: "length xs \<ge> 2 \<Longrightarrow> \<exists>y. index_last2 xs = Inr y"
  by (simp add: index_last2_def index1_some)

lemma process_5p_returns:
  assumes "strand = ''+'' \<or> strand = ''-''" and "length positions \<ge> 2" and "vertex_IDs \<noteq> []"
  shows "\<exists>r s'. process_5p chrom positions strand vertex_IDs g gs ri s = Inr (r, s')"
proof -
  from assms(2) have ne: "positions \<noteq> []" by auto
  obtain p1 where p1: "index1 positions = Inr p1" using index1_some[OF assms(2)] by blast
  obtain m d k where pm: "permissive_match_with_gene_priority chrom (hd positions) strand p1 ''start'' g gs (locations s) ri = Inr (m, d, k)"
    using permissive_match_with_gene_priority_returns[OF assms(1), of "''start''"] by (metis prod_cases3)
  show ?thesis
    by (auto simp: process_5p_def index0_hd[OF ne] index0_hd[OF assms(3)] p1 pm Let_def split: prod.splits option.splits)
qed

lemma process_3p_returns:
  assumes "strand = ''+'' \<or> strand = ''-''" and "length positions \<ge> 2" and "vertex_IDs \<noteq> []"
  shows "\<exists>r s'. process_3p chrom positions strand vertex_IDs g gs ri s = Inr (r, s')"
proof -
  from assms(2) have ne: "positions \<noteq> []" by auto
  obtain p1 where p1: "index_last2 positions = Inr p1" using index_last2_some[OF assms(2)] by blast
  obtain m d k where pm: "permissive_match_with_gene_priority chrom (last positions) strand p1 ''end'' g gs (locations s) ri = Inr (m, d, k)"
    using permissive_match_with_gene_priority_returns[OF assms(1), of "''end''"] by (metis prod_cases3)
  show ?thesis
    by (auto simp: process_3p_def index_last_last[OF ne] index_last_last[OF assms(3)] p1 pm Let_def split: prod.splits option.splits)
qed

subsection \<open>What the permissive search returns\<close>

text \<open>
  The permissive search of an end returns a vertex at most the cutoff away from the read's
  end and inside the search window, taken from the graph or from the known starts or ends
  of the gene; when there is none it returns nothing and the end processing creates a
  vertex at the read's end. The terminal exon is the known edge between the end vertex and
  the neighbouring splice vertex, or a new one.
\<close>

lemma compute_delta_abs: "compute_delta q p strand = Inr dd \<Longrightarrow> \<bar>dd\<bar> = \<bar>q - p\<bar>"
  by (auto simp: compute_delta_def Let_def split: if_splits)

lemma scan_offsets_step:
  "scan_offsets chrom p strand locs dir ws we (dist # rest) =
     (case (if p + dist * dir > ws \<and> p + dist * dir < we
            then search_for_vertex_at_pos chrom (p + dist * dir) locs else None) of
        Some m \<Rightarrow>
          (case compute_delta (p + dist * dir) p strand of
             Inl e \<Rightarrow> Inl e
           | Inr d \<Rightarrow> Inr (Some (location_ID m), Some d))
      | None \<Rightarrow>
          (case (if p - dist * dir > ws \<and> p - dist * dir < we
                 then search_for_vertex_at_pos chrom (p - dist * dir) locs else None) of
             Some m \<Rightarrow>
               (case compute_delta (p - dist * dir) p strand of
                  Inl e \<Rightarrow> Inl e
                | Inr d \<Rightarrow> Inr (Some (location_ID m), Some d))
           | None \<Rightarrow> scan_offsets chrom p strand locs dir ws we rest))"
  by (simp add: Let_def)

lemma scan_offsets_found:
  assumes "dir = 1 \<or> dir = - 1"
    and "scan_offsets chrom p strand locs dir ws we ds = Inr (Some v, d)"
  shows "\<exists>q dd vx. d = Some dd \<and> compute_delta q p strand = Inr dd
           \<and> (\<exists>dist\<in>set ds. q = p + dist \<or> q = p - dist) \<and> ws < q \<and> q < we
           \<and> search_for_vertex_at_pos chrom q locs = Some vx \<and> location_ID vx = v"
  using assms(2)
proof (induction ds)
  case Nil
  then show ?case by simp
next
  case (Cons dist rest)
  let ?q1 = "p + dist * dir" and ?q2 = "p - dist * dir"
  let ?f1 = "if ?q1 > ws \<and> ?q1 < we then search_for_vertex_at_pos chrom ?q1 locs else None"
  let ?f2 = "if ?q2 > ws \<and> ?q2 < we then search_for_vertex_at_pos chrom ?q2 locs else None"
  have a1: "?q1 = p + dist \<or> ?q1 = p - dist" and a2: "?q2 = p + dist \<or> ?q2 = p - dist"
    using assms(1) by auto
  show ?case
  proof (cases ?f1)
    case (Some m1)
    then have w: "ws < ?q1" "?q1 < we" "search_for_vertex_at_pos chrom ?q1 locs = Some m1"
      by (auto split: if_splits)
    from Cons.prems Some obtain dd where dd: "compute_delta ?q1 p strand = Inr dd"
      "v = location_ID m1" "d = Some dd"
      unfolding scan_offsets_step by (auto split: sum.splits)
    have "\<exists>dist'\<in>set (dist # rest). ?q1 = p + dist' \<or> ?q1 = p - dist'" using a1 by simp
    with w dd show ?thesis by blast
  next
    case None
    note n1 = None
    show ?thesis
    proof (cases ?f2)
      case (Some m2)
      then have w: "ws < ?q2" "?q2 < we" "search_for_vertex_at_pos chrom ?q2 locs = Some m2"
        by (auto split: if_splits)
      from Cons.prems n1 Some obtain dd where dd: "compute_delta ?q2 p strand = Inr dd"
        "v = location_ID m2" "d = Some dd"
        unfolding scan_offsets_step by (auto split: sum.splits)
      have "\<exists>dist'\<in>set (dist # rest). ?q2 = p + dist' \<or> ?q2 = p - dist'" using a2 by simp
      with w dd show ?thesis by blast
    next
      case None
      with Cons.prems n1 have "scan_offsets chrom p strand locs dir ws we rest = Inr (Some v, d)"
        unfolding scan_offsets_step by simp
      from Cons.IH[OF this] show ?thesis by auto
    qed
  qed
qed

lemma scan_offsets_none:
  assumes "dir = 1 \<or> dir = - 1"
    and "scan_offsets chrom p strand locs dir ws we ds = Inr (None, d)"
  shows "d = None \<and> (\<forall>dist\<in>set ds. \<forall>q. (q = p + dist \<or> q = p - dist) \<and> ws < q \<and> q < we
                        \<longrightarrow> search_for_vertex_at_pos chrom q locs = None)"
  using assms(2)
proof (induction ds)
  case Nil
  then show ?case by simp
next
  case (Cons dist rest)
  let ?q1 = "p + dist * dir" and ?q2 = "p - dist * dir"
  let ?f1 = "if ?q1 > ws \<and> ?q1 < we then search_for_vertex_at_pos chrom ?q1 locs else None"
  let ?f2 = "if ?q2 > ws \<and> ?q2 < we then search_for_vertex_at_pos chrom ?q2 locs else None"
  have f1: "?f1 = None"
  proof (cases ?f1)
    case (Some m1)
    with Cons.prems show ?thesis unfolding scan_offsets_step by (auto split: sum.splits)
  qed simp
  have f2: "?f2 = None"
  proof (cases ?f2)
    case (Some m2)
    with Cons.prems f1 show ?thesis unfolding scan_offsets_step by (auto split: sum.splits)
  qed simp
  from Cons.prems f1 f2 have "scan_offsets chrom p strand locs dir ws we rest = Inr (None, d)"
    unfolding scan_offsets_step by simp
  note ih = Cons.IH[OF this]
  have here: "\<forall>q. (q = p + dist \<or> q = p - dist) \<and> ws < q \<and> q < we
                \<longrightarrow> search_for_vertex_at_pos chrom q locs = None"
  proof (intro allI impI)
    fix q assume q: "(q = p + dist \<or> q = p - dist) \<and> ws < q \<and> q < we"
    then have "q = ?q1 \<or> q = ?q2" using assms(1) by auto
    then show "search_for_vertex_at_pos chrom q locs = None"
    proof
      assume "q = ?q1"
      with q f1 show ?thesis by (auto split: if_splits)
    next
      assume "q = ?q2"
      with q f2 show ?thesis by (auto split: if_splits)
    qed
  qed
  from ih here show ?case by auto
qed

lemma closest_gene_loc_spec:
  "closest_gene_loc p strand ws we known (mad, bd, cv) = Inr (mad', bd', cv') \<Longrightarrow>
     (mad' = mad \<and> bd' = bd \<and> cv' = cv)
     \<or> (\<exists>q v dd. (q, v) \<in> set known \<and> ws \<le> q \<and> q \<le> we \<and> cv' = Some v \<and> bd' = Some dd
            \<and> compute_delta q p strand = Inr dd \<and> \<bar>dd\<bar> = mad' \<and> mad' < mad)"
proof (induction known arbitrary: mad bd cv)
  case Nil
  then show ?case by simp
next
  case (Cons k known)
  obtain q0 v0 where k: "k = (q0, v0)" by force
  show ?case
  proof (cases "q0 < ws \<or> q0 > we")
    case True
    with Cons.prems k have "closest_gene_loc p strand ws we known (mad, bd, cv) = Inr (mad', bd', cv')"
      by simp
    from Cons.IH[OF this] show ?thesis by auto
  next
    case False
    with Cons.prems k obtain cd where cd: "compute_delta q0 p strand = Inr cd"
      by (auto split: sum.splits)
    show ?thesis
    proof (cases "\<bar>cd\<bar> < mad")
      case True
      with Cons.prems k False cd
      have "closest_gene_loc p strand ws we known (\<bar>cd\<bar>, Some cd, Some v0) = Inr (mad', bd', cv')"
        by simp
      from Cons.IH[OF this] have
        "(mad' = \<bar>cd\<bar> \<and> bd' = Some cd \<and> cv' = Some v0)
         \<or> (\<exists>q v dd. (q, v) \<in> set known \<and> ws \<le> q \<and> q \<le> we \<and> cv' = Some v \<and> bd' = Some dd
            \<and> compute_delta q p strand = Inr dd \<and> \<bar>dd\<bar> = mad' \<and> mad' < \<bar>cd\<bar>)" .
      then show ?thesis
      proof
        assume "mad' = \<bar>cd\<bar> \<and> bd' = Some cd \<and> cv' = Some v0"
        with cd True k False have "(q0, v0) \<in> set (k # known) \<and> ws \<le> q0 \<and> q0 \<le> we
            \<and> cv' = Some v0 \<and> bd' = Some cd
            \<and> compute_delta q0 p strand = Inr cd \<and> \<bar>cd\<bar> = mad' \<and> mad' < mad" by simp
        then show ?thesis by blast
      next
        assume "\<exists>q v dd. (q, v) \<in> set known \<and> ws \<le> q \<and> q \<le> we \<and> cv' = Some v \<and> bd' = Some dd
            \<and> compute_delta q p strand = Inr dd \<and> \<bar>dd\<bar> = mad' \<and> mad' < \<bar>cd\<bar>"
        then obtain q v dd where "(q, v) \<in> set known" "ws \<le> q" "q \<le> we" "cv' = Some v" "bd' = Some dd"
            "compute_delta q p strand = Inr dd" "\<bar>dd\<bar> = mad'" "mad' < \<bar>cd\<bar>" by blast
        with True have "(q, v) \<in> set (k # known) \<and> ws \<le> q \<and> q \<le> we \<and> cv' = Some v \<and> bd' = Some dd
            \<and> compute_delta q p strand = Inr dd \<and> \<bar>dd\<bar> = mad' \<and> mad' < mad" by simp
        then show ?thesis by blast
      qed
    next
      case nl: False
      with Cons.prems k False cd
      have "closest_gene_loc p strand ws we known (mad, bd, cv) = Inr (mad', bd', cv')"
        by simp
      from Cons.IH[OF this] show ?thesis by auto
    qed
  qed
qed

lemma offsets_cover:
  "0 < \<bar>q - p\<bar> \<Longrightarrow> \<bar>q - p\<bar> < c \<Longrightarrow> \<exists>dist\<in>set [1 .. c - 1]. q = p + dist \<or> q = p - dist"
proof (rule bexI[of _ "\<bar>q - p\<bar>"])
  assume a: "0 < \<bar>q - p\<bar>" "\<bar>q - p\<bar> < c"
  show "q = p + \<bar>q - p\<bar> \<or> q = p - \<bar>q - p\<bar>" by linarith
  from a show "\<bar>q - p\<bar> \<in> set [1 .. c - 1]" by simp
qed

lemma permissive_vertex_search_spec:
  assumes "permissive_vertex_search chrom p strand sj pt locs ri = Inr (m, d)"
    and "c = (if pt = ''start'' then cutoff_5p ri else cutoff_3p ri)"
    and "up \<longleftrightarrow> (strand = ''+'' \<and> pt = ''start'') \<or> (strand = ''-'' \<and> pt = ''end'')"
    and "lo = (if up then p - c else sj)" and "hi = (if up then sj else p + c)"
  shows "(case m of
            Some v \<Rightarrow> \<exists>q dd vx. d = Some dd \<and> \<bar>dd\<bar> = \<bar>q - p\<bar>
                       \<and> (q = p \<or> (compute_delta q p strand = Inr dd \<and> \<bar>q - p\<bar> < c \<and> lo < q \<and> q < hi))
                       \<and> search_for_vertex_at_pos chrom q locs = Some vx \<and> location_ID vx = v
          | None \<Rightarrow> d = None \<and> search_for_vertex_at_pos chrom p locs = None
                     \<and> (\<forall>q. 0 < \<bar>q - p\<bar> \<and> \<bar>q - p\<bar> < c \<and> lo < q \<and> q < hi
                            \<longrightarrow> search_for_vertex_at_pos chrom q locs = None))"
proof (cases "search_for_vertex_at_pos chrom p locs")
  case (Some vx)
  with assms(1) have "m = Some (location_ID vx)" "d = Some 0"
    by (simp_all add: permissive_vertex_search_def)
  with Some show ?thesis by auto
next
  case None
  have pt: "\<not> (pt \<noteq> ''start'' \<and> pt \<noteq> ''end'')"
  proof
    assume "pt \<noteq> ''start'' \<and> pt \<noteq> ''end''"
    with assms(1) None show False by (simp add: permissive_vertex_search_def)
  qed
  have st: "\<not> (strand \<noteq> ''+'' \<and> strand \<noteq> ''-'')"
  proof
    assume "strand \<noteq> ''+'' \<and> strand \<noteq> ''-''"
    with assms(1) None pt show False by (simp add: permissive_vertex_search_def)
  qed
  define dir :: int where "dir = (if up then - 1 else 1)"
  have dir: "dir = 1 \<or> dir = - 1" by (simp add: dir_def)
  have body: "(if up
            then scan_offsets chrom p strand locs (- 1) (p - c) sj [1 .. c - 1]
            else scan_offsets chrom p strand locs 1 sj (p + c) [1 .. c - 1]) = Inr (m, d)"
    using assms(1)
    unfolding permissive_vertex_search_def None option.case Let_def
      assms(2)[symmetric] assms(3)[symmetric]
    by (simp only: pt st if_False)
  have scan: "scan_offsets chrom p strand locs dir lo hi [1 .. c - 1] = Inr (m, d)"
  proof (cases up)
    case True
    then show ?thesis using body by (simp only: assms(4,5) dir_def if_True)
  next
    case False
    then show ?thesis using body by (simp only: assms(4,5) dir_def if_False)
  qed
  show ?thesis
  proof (cases m)
    case N: None
    have scanN: "scan_offsets chrom p strand locs dir lo hi [1 .. c - 1] = Inr (None, d)"
      using scan N by simp
    note sn = scan_offsets_none[OF dir scanN]
    have d: "d = None" by (rule sn[THEN conjunct1])
    have all: "\<forall>dist\<in>set [1 .. c - 1]. \<forall>q. (q = p + dist \<or> q = p - dist) \<and> lo < q \<and> q < hi
                        \<longrightarrow> search_for_vertex_at_pos chrom q locs = None" by (rule sn[THEN conjunct2])
    have "\<forall>q. 0 < \<bar>q - p\<bar> \<and> \<bar>q - p\<bar> < c \<and> lo < q \<and> q < hi
                            \<longrightarrow> search_for_vertex_at_pos chrom q locs = None"
    proof (intro allI impI)
      fix q assume q: "0 < \<bar>q - p\<bar> \<and> \<bar>q - p\<bar> < c \<and> lo < q \<and> q < hi"
      then obtain dist where "dist \<in> set [1 .. c - 1]" "q = p + dist \<or> q = p - dist"
        using offsets_cover[of q p c] by blast
      then have "(q = p + dist \<or> q = p - dist) \<and> lo < q \<and> q < hi" using q by simp
      with all[THEN bspec, OF \<open>dist \<in> set [1 .. c - 1]\<close>, THEN spec, of q]
      show "search_for_vertex_at_pos chrom q locs = None" by (rule mp)
    qed
    with d None N show ?thesis by simp
  next
    case (Some v)
    have scanS: "scan_offsets chrom p strand locs dir lo hi [1 .. c - 1] = Inr (Some v, d)"
      using scan Some by simp
    from scan_offsets_found[OF dir scanS]
    obtain q dd vx where r: "d = Some dd" "compute_delta q p strand = Inr dd"
      "\<exists>dist\<in>set [1 .. c - 1]. q = p + dist \<or> q = p - dist" "lo < q" "q < hi"
      "search_for_vertex_at_pos chrom q locs = Some vx" "location_ID vx = v" by blast
    from r(3) have lt: "\<bar>q - p\<bar> < c" by auto
    have "d = Some dd \<and> \<bar>dd\<bar> = \<bar>q - p\<bar>
                       \<and> (q = p \<or> (compute_delta q p strand = Inr dd \<and> \<bar>q - p\<bar> < c \<and> lo < q \<and> q < hi))
                       \<and> search_for_vertex_at_pos chrom q locs = Some vx \<and> location_ID vx = v"
      using r lt compute_delta_abs[OF r(2)] by simp
    then show ?thesis unfolding Some option.case by blast
  qed
qed

lemma closest_gene_loc_min:
  "closest_gene_loc p strand ws we known (mad, bd, cv) = Inr (mad', bd', cv') \<Longrightarrow>
     mad' \<le> mad \<and> (\<forall>q v. (q, v) \<in> set known \<and> ws \<le> q \<and> q \<le> we \<longrightarrow> mad' \<le> \<bar>q - p\<bar>)"
proof (induction known arbitrary: mad bd cv)
  case Nil
  then show ?case by simp
next
  case (Cons k known)
  obtain q0 v0 where k: "k = (q0, v0)" by force
  show ?case
  proof (cases "q0 < ws \<or> q0 > we")
    case True
    with Cons.prems k have "closest_gene_loc p strand ws we known (mad, bd, cv) = Inr (mad', bd', cv')"
      by simp
    from Cons.IH[OF this] have a: "mad' \<le> mad"
      and b: "\<forall>q v. (q, v) \<in> set known \<and> ws \<le> q \<and> q \<le> we \<longrightarrow> mad' \<le> \<bar>q - p\<bar>"
      by (rule conjunct1, rule conjunct2)
    have "\<forall>q v. (q, v) \<in> set (k # known) \<and> ws \<le> q \<and> q \<le> we \<longrightarrow> mad' \<le> \<bar>q - p\<bar>"
    proof (intro allI impI)
      fix q v assume h: "(q, v) \<in> set (k # known) \<and> ws \<le> q \<and> q \<le> we"
      with True k have "(q, v) \<in> set known" by auto
      with h b show "mad' \<le> \<bar>q - p\<bar>" by blast
    qed
    with a show ?thesis by simp
  next
    case False
    with Cons.prems k obtain cd where cd: "compute_delta q0 p strand = Inr cd"
      by (auto split: sum.splits)
    have cda: "\<bar>cd\<bar> = \<bar>q0 - p\<bar>" by (rule compute_delta_abs[OF cd])
    show ?thesis
    proof (cases "\<bar>cd\<bar> < mad")
      case True
      with Cons.prems k False cd
      have "closest_gene_loc p strand ws we known (\<bar>cd\<bar>, Some cd, Some v0) = Inr (mad', bd', cv')"
        by simp
      from Cons.IH[OF this] have a: "mad' \<le> \<bar>cd\<bar>"
        and b: "\<forall>q v. (q, v) \<in> set known \<and> ws \<le> q \<and> q \<le> we \<longrightarrow> mad' \<le> \<bar>q - p\<bar>"
        by (rule conjunct1, rule conjunct2)
      have "\<forall>q v. (q, v) \<in> set (k # known) \<and> ws \<le> q \<and> q \<le> we \<longrightarrow> mad' \<le> \<bar>q - p\<bar>"
      proof (intro allI impI)
        fix q v assume h: "(q, v) \<in> set (k # known) \<and> ws \<le> q \<and> q \<le> we"
        then have "(q, v) = (q0, v0) \<or> (q, v) \<in> set known" using k by simp
        then show "mad' \<le> \<bar>q - p\<bar>"
        proof
          assume "(q, v) = (q0, v0)"
          with a cda show ?thesis by simp
        next
          assume "(q, v) \<in> set known"
          with h b show ?thesis by blast
        qed
      qed
      with a True show ?thesis by simp
    next
      case nl: False
      with Cons.prems k False cd
      have "closest_gene_loc p strand ws we known (mad, bd, cv) = Inr (mad', bd', cv')"
        by simp
      from Cons.IH[OF this] have a: "mad' \<le> mad"
        and b: "\<forall>q v. (q, v) \<in> set known \<and> ws \<le> q \<and> q \<le> we \<longrightarrow> mad' \<le> \<bar>q - p\<bar>"
        by (rule conjunct1, rule conjunct2)
      have "\<forall>q v. (q, v) \<in> set (k # known) \<and> ws \<le> q \<and> q \<le> we \<longrightarrow> mad' \<le> \<bar>q - p\<bar>"
      proof (intro allI impI)
        fix q v assume h: "(q, v) \<in> set (k # known) \<and> ws \<le> q \<and> q \<le> we"
        then have "(q, v) = (q0, v0) \<or> (q, v) \<in> set known" using k by simp
        then show "mad' \<le> \<bar>q - p\<bar>"
        proof
          assume "(q, v) = (q0, v0)"
          with a cda nl show ?thesis by simp
        next
          assume "(q, v) \<in> set known"
          with h b show ?thesis by blast
        qed
      qed
      with a show ?thesis by simp
    qed
  qed
qed

lemma compute_delta_self:
  "strand = ''+'' \<or> strand = ''-'' \<Longrightarrow> compute_delta p p strand = Inr 0"
  by (auto simp: compute_delta_def Let_def)

lemma pmwgp_unfold:
  assumes pt: "pt = ''start'' \<or> pt = ''end''" and st: "strand = ''+'' \<or> strand = ''-''"
    and nv: "search_for_vertex_at_pos chrom p locs = None"
    and c: "c = (if pt = ''start'' then cutoff_5p ri else cutoff_3p ri)"
    and up: "up \<longleftrightarrow> (strand = ''+'' \<and> pt = ''start'') \<or> (strand = ''-'' \<and> pt = ''end'')"
    and lo: "lo = (if up then p - c else sj)" and hi: "hi = (if up then sj else p + c)"
    and fb: "fb = (case permissive_vertex_search chrom p strand sj pt locs ri of
               Inl e \<Rightarrow> Inl e
             | Inr (m, dist) \<Rightarrow> Inr (m, dist, 0))"
  shows "permissive_match_with_gene_priority chrom p strand sj pt g gl locs ri =
     (case gl g of
        None \<Rightarrow> fb
      | Some known \<Rightarrow>
          (case closest_gene_loc p strand lo hi known (c + 1, None, None) of
             Inl e \<Rightarrow> Inl e
           | Inr (mad, bd, cv) \<Rightarrow> if mad \<le> c then Inr (cv, bd, 1) else fb))"
proof -
  have a: "\<not> (pt \<noteq> ''start'' \<and> pt \<noteq> ''end'')" using pt by simp
  have b: "\<not> (strand \<noteq> ''+'' \<and> strand \<noteq> ''-'')" using st by simp
  have w: "(if (strand = ''+'' \<and> pt = ''start'') \<or> (strand = ''-'' \<and> pt = ''end'')
                     then (p - c, sj) else (sj, p + c)) = (lo, hi)"
    unfolding up[symmetric] lo hi by simp
  show ?thesis
    unfolding permissive_match_with_gene_priority_def Let_def nv option.case c[symmetric]
      fb[symmetric] w prod.case
    by (simp only: a b if_False)
qed

lemma pmwgp_spec:
  assumes r: "permissive_match_with_gene_priority chrom p strand sj pt g gl locs ri = Inr (m, d, k)"
    and c: "c = (if pt = ''start'' then cutoff_5p ri else cutoff_3p ri)"
    and up: "up \<longleftrightarrow> (strand = ''+'' \<and> pt = ''start'') \<or> (strand = ''-'' \<and> pt = ''end'')"
    and lo: "lo = (if up then p - c else sj)" and hi: "hi = (if up then sj else p + c)"
  shows "(case d of
     Some dd \<Rightarrow> \<exists>q v. m = Some v \<and> compute_delta q p strand = Inr dd
          \<and> (q = p \<or> (\<bar>q - p\<bar> \<le> c \<and> lo \<le> q \<and> q \<le> hi))
          \<and> ((\<exists>vx. search_for_vertex_at_pos chrom q locs = Some vx \<and> location_ID vx = v)
              \<or> (\<exists>known. gl g = Some known \<and> (q, v) \<in> set known))
   | None \<Rightarrow> m = None \<and> search_for_vertex_at_pos chrom p locs = None
        \<and> (\<forall>q. 0 < \<bar>q - p\<bar> \<and> \<bar>q - p\<bar> < c \<and> lo < q \<and> q < hi
                 \<longrightarrow> search_for_vertex_at_pos chrom q locs = None)
        \<and> (\<forall>known q v. gl g = Some known \<and> (q, v) \<in> set known \<and> lo \<le> q \<and> q \<le> hi
                 \<longrightarrow> c < \<bar>q - p\<bar>))"
proof -
  have pt: "pt = ''start'' \<or> pt = ''end''"
  proof (rule ccontr)
    assume "\<not> (pt = ''start'' \<or> pt = ''end'')"
    then have "permissive_match_with_gene_priority chrom p strand sj pt g gl locs ri = Inl ValueError"
      by (simp add: permissive_match_with_gene_priority_def)
    with r show False by simp
  qed
  have st: "strand = ''+'' \<or> strand = ''-''"
  proof (rule ccontr)
    assume "\<not> (strand = ''+'' \<or> strand = ''-'')"
    then have "permissive_match_with_gene_priority chrom p strand sj pt g gl locs ri = Inl ValueError"
      by (simp add: permissive_match_with_gene_priority_def)
    with r show False by simp
  qed
  show ?thesis
  proof (cases "search_for_vertex_at_pos chrom p locs")
    case (Some vx)
    have a: "\<not> (pt \<noteq> ''start'' \<and> pt \<noteq> ''end'')" using pt by simp
    have b: "\<not> (strand \<noteq> ''+'' \<and> strand \<noteq> ''-'')" using st by simp
    have "m = Some (location_ID vx) \<and> d = Some 0"
      using r unfolding permissive_match_with_gene_priority_def Some option.case
      by (simp only: a b if_False) (simp split: option.splits if_splits)
    then have m: "m = Some (location_ID vx)" and d: "d = Some 0" by simp_all
    have "m = Some (location_ID vx) \<and> compute_delta p p strand = Inr 0
          \<and> (p = p \<or> (\<bar>p - p\<bar> \<le> c \<and> lo \<le> p \<and> p \<le> hi))
          \<and> ((\<exists>vx'. search_for_vertex_at_pos chrom p locs = Some vx' \<and> location_ID vx' = location_ID vx)
              \<or> (\<exists>known. gl g = Some known \<and> (p, location_ID vx) \<in> set known))"
      using m Some compute_delta_self[OF st] by simp
    then have "\<exists>q v. m = Some v \<and> compute_delta q p strand = Inr 0
          \<and> (q = p \<or> (\<bar>q - p\<bar> \<le> c \<and> lo \<le> q \<and> q \<le> hi))
          \<and> ((\<exists>vx. search_for_vertex_at_pos chrom q locs = Some vx \<and> location_ID vx = v)
              \<or> (\<exists>known. gl g = Some known \<and> (q, v) \<in> set known))"
      by (rule_tac x = p in exI, rule_tac x = "location_ID vx" in exI)
    then show ?thesis unfolding d option.case .
  next
    case None
    define fb where "fb = (case permissive_vertex_search chrom p strand sj pt locs ri of
               Inl e \<Rightarrow> Inl e
             | Inr (m, dist) \<Rightarrow> Inr (m, dist, 0::int))"
    note unf = pmwgp_unfold[OF pt st None c up lo hi fb_def, of g gl]
    have fbcase: "(case d of
       Some dd \<Rightarrow> \<exists>q v. m = Some v \<and> compute_delta q p strand = Inr dd
          \<and> (q = p \<or> (\<bar>q - p\<bar> \<le> c \<and> lo \<le> q \<and> q \<le> hi))
          \<and> ((\<exists>vx. search_for_vertex_at_pos chrom q locs = Some vx \<and> location_ID vx = v)
              \<or> (\<exists>known. gl g = Some known \<and> (q, v) \<in> set known))
     | None \<Rightarrow> m = None \<and> search_for_vertex_at_pos chrom p locs = None
        \<and> (\<forall>q. 0 < \<bar>q - p\<bar> \<and> \<bar>q - p\<bar> < c \<and> lo < q \<and> q < hi
                 \<longrightarrow> search_for_vertex_at_pos chrom q locs = None))"
      if f: "fb = Inr (m, d, k)"
    proof -
      from f have pvs: "permissive_vertex_search chrom p strand sj pt locs ri = Inr (m, d)"
        unfolding fb_def by (simp split: sum.splits prod.splits)
      note sp = permissive_vertex_search_spec[OF pvs c up lo hi]
      show ?thesis
      proof (cases m)
        case mN: None
        from sp[unfolded mN option.case] have dN: "d = None"
          and rest: "search_for_vertex_at_pos chrom p locs = None
                     \<and> (\<forall>q. 0 < \<bar>q - p\<bar> \<and> \<bar>q - p\<bar> < c \<and> lo < q \<and> q < hi
                            \<longrightarrow> search_for_vertex_at_pos chrom q locs = None)"
          by (rule conjunct1, rule conjunct2)
        show ?thesis unfolding dN option.case using mN rest by simp
      next
        case (Some v)
        from sp[unfolded Some option.case]
        obtain q dd vx where x: "d = Some dd" "\<bar>dd\<bar> = \<bar>q - p\<bar>"
          "q = p \<or> (compute_delta q p strand = Inr dd \<and> \<bar>q - p\<bar> < c \<and> lo < q \<and> q < hi)"
          "search_for_vertex_at_pos chrom q locs = Some vx" "location_ID vx = v" by blast
        from x(4) None have qp: "q \<noteq> p" by auto
        with x(3) have y: "compute_delta q p strand = Inr dd" "\<bar>q - p\<bar> < c" "lo < q" "q < hi"
          by simp_all
        have "m = Some v \<and> compute_delta q p strand = Inr dd
          \<and> (q = p \<or> (\<bar>q - p\<bar> \<le> c \<and> lo \<le> q \<and> q \<le> hi))
          \<and> ((\<exists>vx. search_for_vertex_at_pos chrom q locs = Some vx \<and> location_ID vx = v)
              \<or> (\<exists>known. gl g = Some known \<and> (q, v) \<in> set known))"
          using Some y x(4,5) by simp
        then have "\<exists>q v. m = Some v \<and> compute_delta q p strand = Inr dd
          \<and> (q = p \<or> (\<bar>q - p\<bar> \<le> c \<and> lo \<le> q \<and> q \<le> hi))
          \<and> ((\<exists>vx. search_for_vertex_at_pos chrom q locs = Some vx \<and> location_ID vx = v)
              \<or> (\<exists>known. gl g = Some known \<and> (q, v) \<in> set known))"
          by (rule_tac x = q in exI, rule_tac x = v in exI)
        then show ?thesis unfolding x(1) option.case .
      qed
    qed
    show ?thesis
    proof (cases "gl g")
      case gN: None
      from r have f: "fb = Inr (m, d, k)" unfolding unf gN option.case .
      from fbcase[OF f] show ?thesis unfolding gN by (cases d) simp_all
    next
      case (Some known)
      from r have r2: "(case closest_gene_loc p strand lo hi known (c + 1, None, None) of
             Inl e \<Rightarrow> Inl e
           | Inr (mad, bd, cv) \<Rightarrow> if mad \<le> c then Inr (cv, bd, 1) else fb) = Inr (m, d, k)"
        unfolding unf Some option.case .
      then obtain mad bd cv where cl: "closest_gene_loc p strand lo hi known (c + 1, None, None) = Inr (mad, bd, cv)"
        by (cases "closest_gene_loc p strand lo hi known (c + 1, None, None)") auto
      from r2 have r3: "(if mad \<le> c then Inr (cv, bd, 1) else fb) = Inr (m, d, k)"
        unfolding cl by simp
      show ?thesis
      proof (cases "mad \<le> c")
        case True
        with r3 have md: "m = cv" "d = bd" by simp_all
        from closest_gene_loc_spec[OF cl] True
        obtain q v dd where x: "(q, v) \<in> set known" "lo \<le> q" "q \<le> hi" "cv = Some v" "bd = Some dd"
            "compute_delta q p strand = Inr dd" "\<bar>dd\<bar> = mad" by auto
        from compute_delta_abs[OF x(6)] x(7) True have le: "\<bar>q - p\<bar> \<le> c" by simp
        have "m = Some v \<and> compute_delta q p strand = Inr dd
          \<and> (q = p \<or> (\<bar>q - p\<bar> \<le> c \<and> lo \<le> q \<and> q \<le> hi))
          \<and> ((\<exists>vx. search_for_vertex_at_pos chrom q locs = Some vx \<and> location_ID vx = v)
              \<or> (\<exists>known. gl g = Some known \<and> (q, v) \<in> set known))"
          using md x le Some by simp
        then have "\<exists>q v. m = Some v \<and> compute_delta q p strand = Inr dd
          \<and> (q = p \<or> (\<bar>q - p\<bar> \<le> c \<and> lo \<le> q \<and> q \<le> hi))
          \<and> ((\<exists>vx. search_for_vertex_at_pos chrom q locs = Some vx \<and> location_ID vx = v)
              \<or> (\<exists>known. gl g = Some known \<and> (q, v) \<in> set known))"
          by (rule_tac x = q in exI, rule_tac x = v in exI)
        then show ?thesis unfolding md(2) x(5) option.case .
      next
        case False
        with r3 have f: "fb = Inr (m, d, k)" by simp
        note fc = fbcase[OF f]
        from closest_gene_loc_min[OF cl]
        have mn: "\<forall>q v. (q, v) \<in> set known \<and> lo \<le> q \<and> q \<le> hi \<longrightarrow> mad \<le> \<bar>q - p\<bar>"
          by (rule conjunct2)
        have far: "\<forall>known' q v. gl g = Some known' \<and> (q, v) \<in> set known' \<and> lo \<le> q \<and> q \<le> hi
                 \<longrightarrow> c < \<bar>q - p\<bar>"
        proof (intro allI impI)
          fix known' q v
          assume h: "gl g = Some known' \<and> (q, v) \<in> set known' \<and> lo \<le> q \<and> q \<le> hi"
          with Some have "known' = known" by simp
          with h have "(q, v) \<in> set known \<and> lo \<le> q \<and> q \<le> hi" by simp
          with mn have "mad \<le> \<bar>q - p\<bar>" by blast
          with False show "c < \<bar>q - p\<bar>" by simp
        qed
        show ?thesis
        proof (cases d)
          case None
          with fc far show ?thesis by simp
        next
          case (Some dd)
          with fc show ?thesis by simp
        qed
      qed
    qed
  qed
qed

lemma index1_nth: "length xs \<ge> 2 \<Longrightarrow> index1 xs = Inr (xs ! 1)"
  by (cases xs; cases "tl xs") (auto simp: index1_def)

lemma index_last2_nth: "length xs \<ge> 2 \<Longrightarrow> index_last2 xs = Inr (xs ! (length xs - 2))"
proof -
  assume l: "length xs \<ge> 2"
  then have "index1 (rev xs) = Inr (rev xs ! 1)" by (simp add: index1_nth)
  moreover from l have "rev xs ! 1 = xs ! (length xs - Suc 1)" by (simp add: rev_nth)
  ultimately show ?thesis by (simp add: index_last2_def numeral_2_eq_2)
qed

lemma vertex_step:
  assumes "(case m of
              Some v \<Rightarrow> (v, s)
            | None \<Rightarrow> (let (nv, s') = create_vertex chrom p ri s in (location_ID nv, s'))) = (sv, s1)"
  shows "edges s1 = edges s \<and> edge_counter s1 = edge_counter s
       \<and> (case m of
            Some v \<Rightarrow> sv = v \<and> s1 = s
          | None \<Rightarrow> sv = sint (vertex_counter s + 1) \<and> vertex_counter s1 = vertex_counter s + 1
               \<and> search_for_vertex_at_pos chrom p (locations s1)
                   = Some \<lparr>location_ID = sv, genome_build = build ri,
                           v_chromosome = chrom, v_position = p\<rparr>)"
proof (cases m)
  case None
  with assms have "sv = sint (vertex_counter s + 1)"
    and "s1 = s\<lparr>locations := (locations s)(chrom \<mapsto>
                   (case locations s chrom of
                      Some d \<Rightarrow> d(p \<mapsto> \<lparr>location_ID = sint (vertex_counter s + 1), genome_build = build ri,
                                        v_chromosome = chrom, v_position = p\<rparr>)
                    | None \<Rightarrow> [p \<mapsto> \<lparr>location_ID = sint (vertex_counter s + 1), genome_build = build ri,
                                        v_chromosome = chrom, v_position = p\<rparr>])),
                 vertex_counter := vertex_counter s + 1\<rparr>"
    by (simp_all add: create_vertex_def increment_def Let_def)
  then show ?thesis unfolding None option.case
    by (simp add: search_for_vertex_at_pos_def split: option.splits)
next
  case (Some v)
  with assms show ?thesis by simp
qed

lemma edge_step:
  assumes "match_or_create_edge a b etype strand s = ((x, n), s2)"
  shows "locations s2 = locations s \<and> vertex_counter s2 = vertex_counter s
       \<and> (if n = 0
           then \<exists>e. search_for_edge a b etype (edges s) = Some e \<and> edge_ID e = x \<and> s2 = s
           else n = 1 \<and> search_for_edge a b etype (edges s) = None
              \<and> x = sint (edge_counter s + 1) \<and> edge_counter s2 = edge_counter s + 1
              \<and> search_for_edge a b etype (edges s2)
                  = Some \<lparr>edge_ID = x, v1 = a, v2 = b, edge_type = etype, e_strand = strand\<rparr>)"
proof (cases "search_for_edge a b etype (edges s)")
  case None
  with assms have "x = sint (edge_counter s + 1)" "n = 1"
    and "s2 = s\<lparr>edges := (edges s)((a, b, etype) \<mapsto>
                   \<lparr>edge_ID = sint (edge_counter s + 1), v1 = a, v2 = b,
                    edge_type = etype, e_strand = strand\<rparr>),
                 edge_counter := edge_counter s + 1\<rparr>"
    by (auto simp: match_or_create_edge_def create_edge_def increment_def Let_def)
  with None show ?thesis by (simp add: search_for_edge_def)
next
  case (Some e)
  with assms show ?thesis by (simp add: match_or_create_edge_def)
qed

lemma process_5p_spec:
  assumes r: "process_5p chrom positions strand vertex_IDs g gene_starts ri s
                = Inr ((sv, sx, sn, known, sd), s1)"
    and len: "length positions \<ge> 2" and vs: "vertex_IDs \<noteq> []"
    and lo: "lo = (if strand = ''+'' then hd positions - cutoff_5p ri else positions ! 1)"
    and hi: "hi = (if strand = ''+'' then positions ! 1 else hd positions + cutoff_5p ri)"
  shows "(case sd of
            Some dd \<Rightarrow> \<exists>q. compute_delta q (hd positions) strand = Inr dd
               \<and> (q = hd positions \<or> (\<bar>q - hd positions\<bar> \<le> cutoff_5p ri \<and> lo \<le> q \<and> q \<le> hi))
               \<and> ((\<exists>vx. search_for_vertex_at_pos chrom q (locations s) = Some vx \<and> location_ID vx = sv)
                   \<or> (\<exists>ks. gene_starts g = Some ks \<and> (q, sv) \<in> set ks))
               \<and> locations s1 = locations s \<and> vertex_counter s1 = vertex_counter s
          | None \<Rightarrow> search_for_vertex_at_pos chrom (hd positions) (locations s) = None
               \<and> (\<forall>q. 0 < \<bar>q - hd positions\<bar> \<and> \<bar>q - hd positions\<bar> < cutoff_5p ri \<and> lo < q \<and> q < hi
                     \<longrightarrow> search_for_vertex_at_pos chrom q (locations s) = None)
               \<and> (\<forall>ks q v. gene_starts g = Some ks \<and> (q, v) \<in> set ks \<and> lo \<le> q \<and> q \<le> hi
                     \<longrightarrow> cutoff_5p ri < \<bar>q - hd positions\<bar>)
               \<and> sv = sint (vertex_counter s + 1) \<and> vertex_counter s1 = vertex_counter s + 1
               \<and> search_for_vertex_at_pos chrom (hd positions) (locations s1)
                   = Some \<lparr>location_ID = sv, genome_build = build ri,
                           v_chromosome = chrom, v_position = hd positions\<rparr>)
       \<and> (if sn = 0
           then \<exists>e. search_for_edge sv (hd vertex_IDs) ''exon'' (edges s) = Some e \<and> edge_ID e = sx
                  \<and> edges s1 = edges s \<and> edge_counter s1 = edge_counter s
           else sn = 1 \<and> search_for_edge sv (hd vertex_IDs) ''exon'' (edges s) = None
              \<and> sx = sint (edge_counter s + 1) \<and> edge_counter s1 = edge_counter s + 1
              \<and> search_for_edge sv (hd vertex_IDs) ''exon'' (edges s1)
                  = Some \<lparr>edge_ID = sx, v1 = sv, v2 = hd vertex_IDs,
                          edge_type = ''exon'', e_strand = strand\<rparr>)"
proof -
  from len have ne: "positions \<noteq> []" by auto
  let ?pm = "permissive_match_with_gene_priority chrom (hd positions) strand (positions ! 1)
               ''start'' g gene_starts (locations s) ri"
  have unf: "process_5p chrom positions strand vertex_IDs g gene_starts ri s =
     (case ?pm of
        Inl e \<Rightarrow> Inl e
      | Inr (m, diff_5p, known_start) \<Rightarrow>
          let (start_vertex, s1) =
                (case m of
                   Some v \<Rightarrow> (v, s)
                 | None \<Rightarrow> (let (nv, s') = create_vertex chrom (hd positions) ri s in (location_ID nv, s'))) in
            let ((start_exon, start_novelty), s2) =
                  match_or_create_edge start_vertex (hd vertex_IDs) ''exon'' strand s1 in
            Inr ((start_vertex, start_exon, start_novelty, known_start, diff_5p), s2))"
    unfolding process_5p_def index0_hd[OF ne] index0_hd[OF vs] index1_nth[OF len] sum.case ..
  obtain m d k where pm: "?pm = Inr (m, d, k)"
    using r unfolding unf by (cases ?pm) auto
  obtain v0 sa where vstep: "(case m of
                   Some v \<Rightarrow> (v, s)
                 | None \<Rightarrow> (let (nv, s') = create_vertex chrom (hd positions) ri s in (location_ID nv, s'))) = (v0, sa)"
    by (metis prod.exhaust)
  obtain x n sb where estep: "match_or_create_edge v0 (hd vertex_IDs) ''exon'' strand sa = ((x, n), sb)"
    by (metis prod.exhaust)
  from r have eqs: "v0 = sv" "x = sx" "n = sn" "k = known" "d = sd" "sb = s1"
    unfolding unf pm by (simp_all add: Let_def vstep estep)
  note V = vertex_step[OF vstep, unfolded eqs]
  note E = edge_step[OF estep, unfolded eqs]
  have up: "(strand = ''+'') \<longleftrightarrow> (strand = ''+'' \<and> ''start'' = ''start'') \<or> (strand = ''-'' \<and> ''start'' = ''end'')"
    by simp
  have c: "cutoff_5p ri = (if ''start'' = ''start'' then cutoff_5p ri else cutoff_3p ri)" by simp
  note P = pmwgp_spec[OF pm[unfolded eqs] c up lo hi]
  have edge: "(if sn = 0
           then \<exists>e. search_for_edge sv (hd vertex_IDs) ''exon'' (edges s) = Some e \<and> edge_ID e = sx
                  \<and> edges s1 = edges s \<and> edge_counter s1 = edge_counter s
           else sn = 1 \<and> search_for_edge sv (hd vertex_IDs) ''exon'' (edges s) = None
              \<and> sx = sint (edge_counter s + 1) \<and> edge_counter s1 = edge_counter s + 1
              \<and> search_for_edge sv (hd vertex_IDs) ''exon'' (edges s1)
                  = Some \<lparr>edge_ID = sx, v1 = sv, v2 = hd vertex_IDs,
                          edge_type = ''exon'', e_strand = strand\<rparr>)"
  proof (cases "sn = 0")
    case True
    with E obtain e where "search_for_edge sv (hd vertex_IDs) ''exon'' (edges sa) = Some e"
       "edge_ID e = sx" "s1 = sa" by auto
    with V True show ?thesis by simp
  next
    case False
    with E have "sn = 1" "search_for_edge sv (hd vertex_IDs) ''exon'' (edges sa) = None"
      "sx = sint (edge_counter sa + 1)" "edge_counter s1 = edge_counter sa + 1"
      "search_for_edge sv (hd vertex_IDs) ''exon'' (edges s1)
                  = Some \<lparr>edge_ID = sx, v1 = sv, v2 = hd vertex_IDs,
                          edge_type = ''exon'', e_strand = strand\<rparr>" by simp_all
    with V False show ?thesis by simp
  qed
  have vert: "(case sd of
            Some dd \<Rightarrow> \<exists>q. compute_delta q (hd positions) strand = Inr dd
               \<and> (q = hd positions \<or> (\<bar>q - hd positions\<bar> \<le> cutoff_5p ri \<and> lo \<le> q \<and> q \<le> hi))
               \<and> ((\<exists>vx. search_for_vertex_at_pos chrom q (locations s) = Some vx \<and> location_ID vx = sv)
                   \<or> (\<exists>ks. gene_starts g = Some ks \<and> (q, sv) \<in> set ks))
               \<and> locations s1 = locations s \<and> vertex_counter s1 = vertex_counter s
          | None \<Rightarrow> search_for_vertex_at_pos chrom (hd positions) (locations s) = None
               \<and> (\<forall>q. 0 < \<bar>q - hd positions\<bar> \<and> \<bar>q - hd positions\<bar> < cutoff_5p ri \<and> lo < q \<and> q < hi
                     \<longrightarrow> search_for_vertex_at_pos chrom q (locations s) = None)
               \<and> (\<forall>ks q v. gene_starts g = Some ks \<and> (q, v) \<in> set ks \<and> lo \<le> q \<and> q \<le> hi
                     \<longrightarrow> cutoff_5p ri < \<bar>q - hd positions\<bar>)
               \<and> sv = sint (vertex_counter s + 1) \<and> vertex_counter s1 = vertex_counter s + 1
               \<and> search_for_vertex_at_pos chrom (hd positions) (locations s1)
                   = Some \<lparr>location_ID = sv, genome_build = build ri,
                           v_chromosome = chrom, v_position = hd positions\<rparr>)"
  proof (cases sd)
    case None
    from P[unfolded None option.case] have mN: "m = None"
      and rest: "search_for_vertex_at_pos chrom (hd positions) (locations s) = None
        \<and> (\<forall>q. 0 < \<bar>q - hd positions\<bar> \<and> \<bar>q - hd positions\<bar> < cutoff_5p ri \<and> lo < q \<and> q < hi
                 \<longrightarrow> search_for_vertex_at_pos chrom q (locations s) = None)
        \<and> (\<forall>known q v. gene_starts g = Some known \<and> (q, v) \<in> set known \<and> lo \<le> q \<and> q \<le> hi
                 \<longrightarrow> cutoff_5p ri < \<bar>q - hd positions\<bar>)"
      by (rule conjunct1, rule conjunct2)
    from V[unfolded mN option.case]
    have v: "sv = sint (vertex_counter s + 1)" "vertex_counter sa = vertex_counter s + 1"
      "search_for_vertex_at_pos chrom (hd positions) (locations sa)
                   = Some \<lparr>location_ID = sv, genome_build = build ri,
                           v_chromosome = chrom, v_position = hd positions\<rparr>" by simp_all
    from E have "locations s1 = locations sa" "vertex_counter s1 = vertex_counter sa" by simp_all
    with v have v': "sv = sint (vertex_counter s + 1) \<and> vertex_counter s1 = vertex_counter s + 1
      \<and> search_for_vertex_at_pos chrom (hd positions) (locations s1)
                   = Some \<lparr>location_ID = sv, genome_build = build ri,
                           v_chromosome = chrom, v_position = hd positions\<rparr>" by simp
    show ?thesis unfolding None option.case
      by (rule conjI[OF rest[THEN conjunct1] conjI[OF rest[THEN conjunct2, THEN conjunct1]
             conjI[OF rest[THEN conjunct2, THEN conjunct2] v']]])
  next
    case (Some dd)
    from P[unfolded Some option.case]
    obtain q v where x: "m = Some v" "compute_delta q (hd positions) strand = Inr dd"
       "q = hd positions \<or> (\<bar>q - hd positions\<bar> \<le> cutoff_5p ri \<and> lo \<le> q \<and> q \<le> hi)"
       "(\<exists>vx. search_for_vertex_at_pos chrom q (locations s) = Some vx \<and> location_ID vx = v)
              \<or> (\<exists>known. gene_starts g = Some known \<and> (q, v) \<in> set known)" by blast
    from V[unfolded x(1) option.case] have sv: "sv = v" "sa = s" by simp_all
    from E have "locations s1 = locations sa" "vertex_counter s1 = vertex_counter sa" by simp_all
    with sv have st: "locations s1 = locations s \<and> vertex_counter s1 = vertex_counter s" by simp
    have "compute_delta q (hd positions) strand = Inr dd
               \<and> (q = hd positions \<or> (\<bar>q - hd positions\<bar> \<le> cutoff_5p ri \<and> lo \<le> q \<and> q \<le> hi))
               \<and> ((\<exists>vx. search_for_vertex_at_pos chrom q (locations s) = Some vx \<and> location_ID vx = sv)
                   \<or> (\<exists>ks. gene_starts g = Some ks \<and> (q, sv) \<in> set ks))
               \<and> locations s1 = locations s \<and> vertex_counter s1 = vertex_counter s"
      using x(2,3,4) st unfolding sv(1) by simp
    then show ?thesis unfolding Some option.case by (rule exI)
  qed
  from vert edge show ?thesis by (rule conjI)
qed

lemma process_3p_spec:
  assumes r: "process_3p chrom positions strand vertex_IDs g gene_ends ri s
                = Inr ((sv, sx, sn, known, sd), s1)"
    and len: "length positions \<ge> 2" and vs: "vertex_IDs \<noteq> []"
    and lo: "lo = (if strand = ''-'' then last positions - cutoff_3p ri else positions ! (length positions - 2))"
    and hi: "hi = (if strand = ''-'' then positions ! (length positions - 2) else last positions + cutoff_3p ri)"
  shows "(case sd of
            Some dd \<Rightarrow> \<exists>q. compute_delta q (last positions) strand = Inr dd
               \<and> (q = last positions \<or> (\<bar>q - last positions\<bar> \<le> cutoff_3p ri \<and> lo \<le> q \<and> q \<le> hi))
               \<and> ((\<exists>vx. search_for_vertex_at_pos chrom q (locations s) = Some vx \<and> location_ID vx = sv)
                   \<or> (\<exists>ks. gene_ends g = Some ks \<and> (q, sv) \<in> set ks))
               \<and> locations s1 = locations s \<and> vertex_counter s1 = vertex_counter s
          | None \<Rightarrow> search_for_vertex_at_pos chrom (last positions) (locations s) = None
               \<and> (\<forall>q. 0 < \<bar>q - last positions\<bar> \<and> \<bar>q - last positions\<bar> < cutoff_3p ri \<and> lo < q \<and> q < hi
                     \<longrightarrow> search_for_vertex_at_pos chrom q (locations s) = None)
               \<and> (\<forall>ks q v. gene_ends g = Some ks \<and> (q, v) \<in> set ks \<and> lo \<le> q \<and> q \<le> hi
                     \<longrightarrow> cutoff_3p ri < \<bar>q - last positions\<bar>)
               \<and> sv = sint (vertex_counter s + 1) \<and> vertex_counter s1 = vertex_counter s + 1
               \<and> search_for_vertex_at_pos chrom (last positions) (locations s1)
                   = Some \<lparr>location_ID = sv, genome_build = build ri,
                           v_chromosome = chrom, v_position = last positions\<rparr>)
       \<and> (if sn = 0
           then \<exists>e. search_for_edge (last vertex_IDs) sv ''exon'' (edges s) = Some e \<and> edge_ID e = sx
                  \<and> edges s1 = edges s \<and> edge_counter s1 = edge_counter s
           else sn = 1 \<and> search_for_edge (last vertex_IDs) sv ''exon'' (edges s) = None
              \<and> sx = sint (edge_counter s + 1) \<and> edge_counter s1 = edge_counter s + 1
              \<and> search_for_edge (last vertex_IDs) sv ''exon'' (edges s1)
                  = Some \<lparr>edge_ID = sx, v1 = last vertex_IDs, v2 = sv,
                          edge_type = ''exon'', e_strand = strand\<rparr>)"
proof -
  from len have ne: "positions \<noteq> []" by auto
  let ?pm = "permissive_match_with_gene_priority chrom (last positions) strand (positions ! (length positions - 2))
               ''end'' g gene_ends (locations s) ri"
  have unf: "process_3p chrom positions strand vertex_IDs g gene_ends ri s =
     (case ?pm of
        Inl e \<Rightarrow> Inl e
      | Inr (m, diff_3p, known_end) \<Rightarrow>
          let (end_vertex, s1) =
                (case m of
                   Some v \<Rightarrow> (v, s)
                 | None \<Rightarrow> (let (nv, s') = create_vertex chrom (last positions) ri s in (location_ID nv, s'))) in
            let ((end_exon, end_novelty), s2) =
                  match_or_create_edge (last vertex_IDs) end_vertex ''exon'' strand s1 in
            Inr ((end_vertex, end_exon, end_novelty, known_end, diff_3p), s2))"
    unfolding process_3p_def index_last_last[OF ne] index_last_last[OF vs] index_last2_nth[OF len] sum.case ..
  obtain m d k where pm: "?pm = Inr (m, d, k)"
    using r unfolding unf by (cases ?pm) auto
  obtain v0 sa where vstep: "(case m of
                   Some v \<Rightarrow> (v, s)
                 | None \<Rightarrow> (let (nv, s') = create_vertex chrom (last positions) ri s in (location_ID nv, s'))) = (v0, sa)"
    by (metis prod.exhaust)
  obtain x n sb where estep: "match_or_create_edge (last vertex_IDs) v0 ''exon'' strand sa = ((x, n), sb)"
    by (metis prod.exhaust)
  from r have eqs: "v0 = sv" "x = sx" "n = sn" "k = known" "d = sd" "sb = s1"
    unfolding unf pm by (simp_all add: Let_def vstep estep)
  note V = vertex_step[OF vstep, unfolded eqs]
  note E = edge_step[OF estep, unfolded eqs]
  have up: "(strand = ''-'') \<longleftrightarrow> (strand = ''+'' \<and> ''end'' = ''start'') \<or> (strand = ''-'' \<and> ''end'' = ''end'')"
    by simp
  have c: "cutoff_3p ri = (if ''end'' = ''start'' then cutoff_5p ri else cutoff_3p ri)" by simp
  note P = pmwgp_spec[OF pm[unfolded eqs] c up lo hi]
  have edge: "(if sn = 0
           then \<exists>e. search_for_edge (last vertex_IDs) sv ''exon'' (edges s) = Some e \<and> edge_ID e = sx
                  \<and> edges s1 = edges s \<and> edge_counter s1 = edge_counter s
           else sn = 1 \<and> search_for_edge (last vertex_IDs) sv ''exon'' (edges s) = None
              \<and> sx = sint (edge_counter s + 1) \<and> edge_counter s1 = edge_counter s + 1
              \<and> search_for_edge (last vertex_IDs) sv ''exon'' (edges s1)
                  = Some \<lparr>edge_ID = sx, v1 = last vertex_IDs, v2 = sv,
                          edge_type = ''exon'', e_strand = strand\<rparr>)"
  proof (cases "sn = 0")
    case True
    with E obtain e where "search_for_edge (last vertex_IDs) sv ''exon'' (edges sa) = Some e"
       "edge_ID e = sx" "s1 = sa" by auto
    with V True show ?thesis by simp
  next
    case False
    with E have "sn = 1" "search_for_edge (last vertex_IDs) sv ''exon'' (edges sa) = None"
      "sx = sint (edge_counter sa + 1)" "edge_counter s1 = edge_counter sa + 1"
      "search_for_edge (last vertex_IDs) sv ''exon'' (edges s1)
                  = Some \<lparr>edge_ID = sx, v1 = last vertex_IDs, v2 = sv,
                          edge_type = ''exon'', e_strand = strand\<rparr>" by simp_all
    with V False show ?thesis by simp
  qed
  have vert: "(case sd of
            Some dd \<Rightarrow> \<exists>q. compute_delta q (last positions) strand = Inr dd
               \<and> (q = last positions \<or> (\<bar>q - last positions\<bar> \<le> cutoff_3p ri \<and> lo \<le> q \<and> q \<le> hi))
               \<and> ((\<exists>vx. search_for_vertex_at_pos chrom q (locations s) = Some vx \<and> location_ID vx = sv)
                   \<or> (\<exists>ks. gene_ends g = Some ks \<and> (q, sv) \<in> set ks))
               \<and> locations s1 = locations s \<and> vertex_counter s1 = vertex_counter s
          | None \<Rightarrow> search_for_vertex_at_pos chrom (last positions) (locations s) = None
               \<and> (\<forall>q. 0 < \<bar>q - last positions\<bar> \<and> \<bar>q - last positions\<bar> < cutoff_3p ri \<and> lo < q \<and> q < hi
                     \<longrightarrow> search_for_vertex_at_pos chrom q (locations s) = None)
               \<and> (\<forall>ks q v. gene_ends g = Some ks \<and> (q, v) \<in> set ks \<and> lo \<le> q \<and> q \<le> hi
                     \<longrightarrow> cutoff_3p ri < \<bar>q - last positions\<bar>)
               \<and> sv = sint (vertex_counter s + 1) \<and> vertex_counter s1 = vertex_counter s + 1
               \<and> search_for_vertex_at_pos chrom (last positions) (locations s1)
                   = Some \<lparr>location_ID = sv, genome_build = build ri,
                           v_chromosome = chrom, v_position = last positions\<rparr>)"
  proof (cases sd)
    case None
    from P[unfolded None option.case] have mN: "m = None"
      and rest: "search_for_vertex_at_pos chrom (last positions) (locations s) = None
        \<and> (\<forall>q. 0 < \<bar>q - last positions\<bar> \<and> \<bar>q - last positions\<bar> < cutoff_3p ri \<and> lo < q \<and> q < hi
                 \<longrightarrow> search_for_vertex_at_pos chrom q (locations s) = None)
        \<and> (\<forall>known q v. gene_ends g = Some known \<and> (q, v) \<in> set known \<and> lo \<le> q \<and> q \<le> hi
                 \<longrightarrow> cutoff_3p ri < \<bar>q - last positions\<bar>)"
      by (rule conjunct1, rule conjunct2)
    from V[unfolded mN option.case]
    have v: "sv = sint (vertex_counter s + 1)" "vertex_counter sa = vertex_counter s + 1"
      "search_for_vertex_at_pos chrom (last positions) (locations sa)
                   = Some \<lparr>location_ID = sv, genome_build = build ri,
                           v_chromosome = chrom, v_position = last positions\<rparr>" by simp_all
    from E have "locations s1 = locations sa" "vertex_counter s1 = vertex_counter sa" by simp_all
    with v have v': "sv = sint (vertex_counter s + 1) \<and> vertex_counter s1 = vertex_counter s + 1
      \<and> search_for_vertex_at_pos chrom (last positions) (locations s1)
                   = Some \<lparr>location_ID = sv, genome_build = build ri,
                           v_chromosome = chrom, v_position = last positions\<rparr>" by simp
    show ?thesis unfolding None option.case
      by (rule conjI[OF rest[THEN conjunct1] conjI[OF rest[THEN conjunct2, THEN conjunct1]
             conjI[OF rest[THEN conjunct2, THEN conjunct2] v']]])
  next
    case (Some dd)
    from P[unfolded Some option.case]
    obtain q v where x: "m = Some v" "compute_delta q (last positions) strand = Inr dd"
       "q = last positions \<or> (\<bar>q - last positions\<bar> \<le> cutoff_3p ri \<and> lo \<le> q \<and> q \<le> hi)"
       "(\<exists>vx. search_for_vertex_at_pos chrom q (locations s) = Some vx \<and> location_ID vx = v)
              \<or> (\<exists>known. gene_ends g = Some known \<and> (q, v) \<in> set known)" by blast
    from V[unfolded x(1) option.case] have sv: "sv = v" "sa = s" by simp_all
    from E have "locations s1 = locations sa" "vertex_counter s1 = vertex_counter sa" by simp_all
    with sv have st: "locations s1 = locations s \<and> vertex_counter s1 = vertex_counter s" by simp
    have "compute_delta q (last positions) strand = Inr dd
               \<and> (q = last positions \<or> (\<bar>q - last positions\<bar> \<le> cutoff_3p ri \<and> lo \<le> q \<and> q \<le> hi))
               \<and> ((\<exists>vx. search_for_vertex_at_pos chrom q (locations s) = Some vx \<and> location_ID vx = sv)
                   \<or> (\<exists>ks. gene_ends g = Some ks \<and> (q, sv) \<in> set ks))
               \<and> locations s1 = locations s \<and> vertex_counter s1 = vertex_counter s"
      using x(2,3,4) st unfolding sv(1) by simp
    then show ?thesis unfolding Some option.case by (rule exI)
  qed
  from vert edge show ?thesis by (rule conjI)
qed

subsection \<open>Full splice matches\<close>

lemma search_for_ISM_Some:
  "search_for_ISM edge_IDs d = Some ms \<Longrightarrow> t \<in> set ms \<Longrightarrow>
   \<exists>key. (key, t) \<in> set d \<and> set edge_IDs \<subseteq> key"
  by (fastforce simp: search_for_ISM_def Let_def split: if_splits)

text \<open>
  C2. Take a read with at least two positions and one interior vertex whose interior
  edges are all contained in stored transcripts (\<open>search_for_ISM\<close> returns the
  matches), and let \<open>t\<close> be the first match with the read's exon count. Then
  \<open>process_FSM\<close> returns, with the gene ID and transcript ID of \<open>t\<close> and an empty
  novelty list. At each end, when the raw offset \<open>d5\<close> (or \<open>d3\<close>) from the terminus of
  \<open>t\<close> is within the cutoff, the vertex and the terminal exon of \<open>t\<close> are inherited
  with that offset and the state is untouched. Only when the offset exceeds the cutoff is
  the end recomputed, as the result of \<open>process_5p\<close> (or \<open>process_3p\<close>), and that
  result is the one of the permissive search. Either a distance is reported: then the end
  vertex is a vertex of the graph, or a known start (end) of the gene of \<open>t\<close>, at a
  position \<open>q\<close> with that signed distance to the read's end, which is the read's end
  itself or lies at most the cutoff from it inside the search window \<open>lo\<close> to \<open>hi\<close>
  (from the cutoff on the outer side to the neighbouring splice junction), and no vertex
  is created. Or no distance is reported: then the graph has no vertex at the read's end
  nor at any position of the window less than the cutoff away, the gene has no known
  start (end) in the window within the cutoff, and a vertex with the next vertex ID is
  created at the read's end. The terminal exon is the edge of the graph from the end
  vertex to the first interior vertex (from the last interior vertex to the end vertex)
  with novelty 0, or, when the graph has none, a new edge with the next edge ID and
  novelty 1.
\<close>

theorem process_FSM_inherits:
  assumes ism: "search_for_ISM edge_IDs (transcripts s) = Some all_matches"
    and fsm: "filter (\<lambda>x. n_exons x = int (length positions) div 2) all_matches = t # rest"
    and len: "length positions \<ge> 2" and vs: "vertex_IDs \<noteq> []"
    and d5: "compute_delta (start_pos t) (hd positions) strand = Inr d5"
    and d3: "compute_delta (end_pos t) (last positions) strand = Inr d3"
    and lo5: "lo5 = (if strand = ''+'' then hd positions - cutoff_5p ri else positions ! 1)"
    and hi5: "hi5 = (if strand = ''+'' then positions ! 1 else hd positions + cutoff_5p ri)"
    and lo3: "lo3 = (if strand = ''-'' then last positions - cutoff_3p ri
                     else positions ! (length positions - 2))"
    and hi3: "hi3 = (if strand = ''-'' then positions ! (length positions - 2)
                     else last positions + cutoff_3p ri)"
  shows "\<exists>info s1 s'.
      process_FSM chrom positions strand edge_IDs vertex_IDs all_matches gene_starts gene_ends ri s
        = Inr ((Some (gene_ID t), Some (transcript_ID t), [], SEI info), s')
    \<and> (\<exists>key. (key, t) \<in> set (transcripts s) \<and> set edge_IDs \<subseteq> key)
    \<and> n_exons t = int (length positions) div 2
    \<and> (if \<bar>d5\<bar> \<le> cutoff_5p ri
        then sei_start_vertex info = start_vertex t \<and> sei_start_exon info = start_exon t
             \<and> sei_diff_5p info = Some d5 \<and> sei_start_novelty info = 0 \<and> s1 = s
        else (\<exists>known. process_5p chrom positions strand vertex_IDs (gene_ID t) gene_starts ri s
               = Inr ((sei_start_vertex info, sei_start_exon info, sei_start_novelty info,
                       known, sei_diff_5p info), s1))
          \<and> (case sei_diff_5p info of
                Some dd \<Rightarrow> \<exists>q. compute_delta q (hd positions) strand = Inr dd
                   \<and> (q = hd positions
                       \<or> (\<bar>q - hd positions\<bar> \<le> cutoff_5p ri \<and> lo5 \<le> q \<and> q \<le> hi5))
                   \<and> ((\<exists>vx. search_for_vertex_at_pos chrom q (locations s) = Some vx
                              \<and> location_ID vx = sei_start_vertex info)
                       \<or> (\<exists>ks. gene_starts (gene_ID t) = Some ks
                              \<and> (q, sei_start_vertex info) \<in> set ks))
                   \<and> locations s1 = locations s \<and> vertex_counter s1 = vertex_counter s
              | None \<Rightarrow> search_for_vertex_at_pos chrom (hd positions) (locations s) = None
                   \<and> (\<forall>q. 0 < \<bar>q - hd positions\<bar> \<and> \<bar>q - hd positions\<bar> < cutoff_5p ri
                            \<and> lo5 < q \<and> q < hi5
                         \<longrightarrow> search_for_vertex_at_pos chrom q (locations s) = None)
                   \<and> (\<forall>ks q v. gene_starts (gene_ID t) = Some ks \<and> (q, v) \<in> set ks
                            \<and> lo5 \<le> q \<and> q \<le> hi5
                         \<longrightarrow> cutoff_5p ri < \<bar>q - hd positions\<bar>)
                   \<and> sei_start_vertex info = sint (vertex_counter s + 1)
                   \<and> vertex_counter s1 = vertex_counter s + 1
                   \<and> search_for_vertex_at_pos chrom (hd positions) (locations s1)
                       = Some \<lparr>location_ID = sei_start_vertex info, genome_build = build ri,
                               v_chromosome = chrom, v_position = hd positions\<rparr>)
          \<and> (if sei_start_novelty info = 0
              then \<exists>e. search_for_edge (sei_start_vertex info) (hd vertex_IDs) ''exon'' (edges s)
                          = Some e
                     \<and> edge_ID e = sei_start_exon info
                     \<and> edges s1 = edges s \<and> edge_counter s1 = edge_counter s
              else sei_start_novelty info = 1
                 \<and> search_for_edge (sei_start_vertex info) (hd vertex_IDs) ''exon'' (edges s) = None
                 \<and> sei_start_exon info = sint (edge_counter s + 1)
                 \<and> edge_counter s1 = edge_counter s + 1
                 \<and> search_for_edge (sei_start_vertex info) (hd vertex_IDs) ''exon'' (edges s1)
                     = Some \<lparr>edge_ID = sei_start_exon info, v1 = sei_start_vertex info,
                             v2 = hd vertex_IDs, edge_type = ''exon'', e_strand = strand\<rparr>))
    \<and> (if \<bar>d3\<bar> \<le> cutoff_3p ri
        then sei_end_vertex info = end_vertex t \<and> sei_end_exon info = end_exon t
             \<and> sei_diff_3p info = Some d3 \<and> sei_end_novelty info = 0 \<and> s' = s1
        else (\<exists>known. process_3p chrom positions strand vertex_IDs (gene_ID t) gene_ends ri s1
               = Inr ((sei_end_vertex info, sei_end_exon info, sei_end_novelty info,
                       known, sei_diff_3p info), s'))
          \<and> (case sei_diff_3p info of
                Some dd \<Rightarrow> \<exists>q. compute_delta q (last positions) strand = Inr dd
                   \<and> (q = last positions
                       \<or> (\<bar>q - last positions\<bar> \<le> cutoff_3p ri \<and> lo3 \<le> q \<and> q \<le> hi3))
                   \<and> ((\<exists>vx. search_for_vertex_at_pos chrom q (locations s1) = Some vx
                              \<and> location_ID vx = sei_end_vertex info)
                       \<or> (\<exists>ks. gene_ends (gene_ID t) = Some ks
                              \<and> (q, sei_end_vertex info) \<in> set ks))
                   \<and> locations s' = locations s1 \<and> vertex_counter s' = vertex_counter s1
              | None \<Rightarrow> search_for_vertex_at_pos chrom (last positions) (locations s1) = None
                   \<and> (\<forall>q. 0 < \<bar>q - last positions\<bar> \<and> \<bar>q - last positions\<bar> < cutoff_3p ri
                            \<and> lo3 < q \<and> q < hi3
                         \<longrightarrow> search_for_vertex_at_pos chrom q (locations s1) = None)
                   \<and> (\<forall>ks q v. gene_ends (gene_ID t) = Some ks \<and> (q, v) \<in> set ks
                            \<and> lo3 \<le> q \<and> q \<le> hi3
                         \<longrightarrow> cutoff_3p ri < \<bar>q - last positions\<bar>)
                   \<and> sei_end_vertex info = sint (vertex_counter s1 + 1)
                   \<and> vertex_counter s' = vertex_counter s1 + 1
                   \<and> search_for_vertex_at_pos chrom (last positions) (locations s')
                       = Some \<lparr>location_ID = sei_end_vertex info, genome_build = build ri,
                               v_chromosome = chrom, v_position = last positions\<rparr>)
          \<and> (if sei_end_novelty info = 0
              then \<exists>e. search_for_edge (last vertex_IDs) (sei_end_vertex info) ''exon'' (edges s1)
                          = Some e
                     \<and> edge_ID e = sei_end_exon info
                     \<and> edges s' = edges s1 \<and> edge_counter s' = edge_counter s1
              else sei_end_novelty info = 1
                 \<and> search_for_edge (last vertex_IDs) (sei_end_vertex info) ''exon'' (edges s1) = None
                 \<and> sei_end_exon info = sint (edge_counter s1 + 1)
                 \<and> edge_counter s' = edge_counter s1 + 1
                 \<and> search_for_edge (last vertex_IDs) (sei_end_vertex info) ''exon'' (edges s')
                     = Some \<lparr>edge_ID = sei_end_exon info, v1 = last vertex_IDs,
                             v2 = sei_end_vertex info, edge_type = ''exon'', e_strand = strand\<rparr>))
    \<and> sei_vertex_IDs info = [sei_start_vertex info] @ vertex_IDs @ [sei_end_vertex info]
    \<and> sei_edge_IDs info = [sei_start_exon info] @ edge_IDs @ [sei_end_exon info]"
proof -
  from len have ne: "positions \<noteq> []" by auto
  have strand: "strand = ''+'' \<or> strand = ''-''"
    using d5 by (auto simp: compute_delta_def Let_def split: if_splits)
  have tin: "t \<in> set all_matches" and tn: "n_exons t = int (length positions) div 2"
  proof -
    have "t \<in> set (filter (\<lambda>x. n_exons x = int (length positions) div 2) all_matches)"
      using fsm by simp
    then show "t \<in> set all_matches" and "n_exons t = int (length positions) div 2" by auto
  qed
  have key: "\<exists>key. (key, t) \<in> set (transcripts s) \<and> set edge_IDs \<subseteq> key"
    using search_for_ISM_Some[OF ism tin] .
  define r5 where "r5 = (if \<bar>d5\<bar> \<le> cutoff_5p ri
                then Inr ((start_vertex t, start_exon t, 0, 0, Some d5), s)
                else process_5p chrom positions strand vertex_IDs (gene_ID t) gene_starts ri s)"
  have "\<exists>sv sx sn sk sd s1. r5 = Inr ((sv, sx, sn, sk, sd), s1)"
  proof (cases "\<bar>d5\<bar> \<le> cutoff_5p ri")
    case True
    then show ?thesis by (simp add: r5_def)
  next
    case False
    obtain r s1 where "process_5p chrom positions strand vertex_IDs (gene_ID t) gene_starts ri s = Inr (r, s1)"
      using process_5p_returns[OF strand len vs] by blast
    with False show ?thesis by (cases r) (simp add: r5_def)
  qed
  then obtain sv sx sn sk sd s1 where r5v: "r5 = Inr ((sv, sx, sn, sk, sd), s1)" by blast
  define r3 where "r3 = (if \<bar>d3\<bar> \<le> cutoff_3p ri
                then Inr ((end_vertex t, end_exon t, 0, 0, Some d3), s1)
                else process_3p chrom positions strand vertex_IDs (gene_ID t) gene_ends ri s1)"
  have "\<exists>ev ex en ek ed s2. r3 = Inr ((ev, ex, en, ek, ed), s2)"
  proof (cases "\<bar>d3\<bar> \<le> cutoff_3p ri")
    case True
    then show ?thesis by (simp add: r3_def)
  next
    case False
    obtain r s2 where "process_3p chrom positions strand vertex_IDs (gene_ID t) gene_ends ri s1 = Inr (r, s2)"
      using process_3p_returns[OF strand len vs] by blast
    with False show ?thesis by (cases r) (simp add: r3_def)
  qed
  then obtain ev ex en ek ed s2 where r3v: "r3 = Inr ((ev, ex, en, ek, ed), s2)" by blast
  define info where "info = \<lparr>sei_start_vertex = sv, sei_end_vertex = ev,
                         sei_start_exon = sx, sei_end_exon = ex,
                         sei_diff_5p = sd, sei_diff_3p = ed,
                         sei_start_novelty = sn, sei_end_novelty = en,
                         sei_vertex_IDs = [sv] @ vertex_IDs @ [ev],
                         sei_edge_IDs = [sx] @ edge_IDs @ [ex]\<rparr>"
  have sel: "sv = sei_start_vertex info" "sx = sei_start_exon info" "sn = sei_start_novelty info"
    "sd = sei_diff_5p info" "ev = sei_end_vertex info" "ex = sei_end_exon info"
    "en = sei_end_novelty info" "ed = sei_diff_3p info"
    by (simp_all add: info_def)
  have run: "process_FSM chrom positions strand edge_IDs vertex_IDs all_matches gene_starts gene_ends ri s
        = Inr ((Some (gene_ID t), Some (transcript_ID t), [], SEI info), s2)"
    unfolding process_FSM_def Let_def fsm info_def
    using r5v r3v unfolding r5_def r3_def
    by (simp add: index0_hd[OF ne] index_last_last[OF ne] d5 d3)
  have vids: "sei_vertex_IDs info = [sei_start_vertex info] @ vertex_IDs @ [sei_end_vertex info]"
    and eids: "sei_edge_IDs info = [sei_start_exon info] @ edge_IDs @ [sei_end_exon info]"
    by (simp_all add: info_def)
  have p5: "(if \<bar>d5\<bar> \<le> cutoff_5p ri
        then sei_start_vertex info = start_vertex t \<and> sei_start_exon info = start_exon t
             \<and> sei_diff_5p info = Some d5 \<and> sei_start_novelty info = 0 \<and> s1 = s
        else (\<exists>known. process_5p chrom positions strand vertex_IDs (gene_ID t) gene_starts ri s
               = Inr ((sei_start_vertex info, sei_start_exon info, sei_start_novelty info,
                       known, sei_diff_5p info), s1))
          \<and> (case sei_diff_5p info of
                Some dd \<Rightarrow> \<exists>q. compute_delta q (hd positions) strand = Inr dd
                   \<and> (q = hd positions
                       \<or> (\<bar>q - hd positions\<bar> \<le> cutoff_5p ri \<and> lo5 \<le> q \<and> q \<le> hi5))
                   \<and> ((\<exists>vx. search_for_vertex_at_pos chrom q (locations s) = Some vx
                              \<and> location_ID vx = sei_start_vertex info)
                       \<or> (\<exists>ks. gene_starts (gene_ID t) = Some ks
                              \<and> (q, sei_start_vertex info) \<in> set ks))
                   \<and> locations s1 = locations s \<and> vertex_counter s1 = vertex_counter s
              | None \<Rightarrow> search_for_vertex_at_pos chrom (hd positions) (locations s) = None
                   \<and> (\<forall>q. 0 < \<bar>q - hd positions\<bar> \<and> \<bar>q - hd positions\<bar> < cutoff_5p ri
                            \<and> lo5 < q \<and> q < hi5
                         \<longrightarrow> search_for_vertex_at_pos chrom q (locations s) = None)
                   \<and> (\<forall>ks q v. gene_starts (gene_ID t) = Some ks \<and> (q, v) \<in> set ks
                            \<and> lo5 \<le> q \<and> q \<le> hi5
                         \<longrightarrow> cutoff_5p ri < \<bar>q - hd positions\<bar>)
                   \<and> sei_start_vertex info = sint (vertex_counter s + 1)
                   \<and> vertex_counter s1 = vertex_counter s + 1
                   \<and> search_for_vertex_at_pos chrom (hd positions) (locations s1)
                       = Some \<lparr>location_ID = sei_start_vertex info, genome_build = build ri,
                               v_chromosome = chrom, v_position = hd positions\<rparr>)
          \<and> (if sei_start_novelty info = 0
              then \<exists>e. search_for_edge (sei_start_vertex info) (hd vertex_IDs) ''exon'' (edges s)
                          = Some e
                     \<and> edge_ID e = sei_start_exon info
                     \<and> edges s1 = edges s \<and> edge_counter s1 = edge_counter s
              else sei_start_novelty info = 1
                 \<and> search_for_edge (sei_start_vertex info) (hd vertex_IDs) ''exon'' (edges s) = None
                 \<and> sei_start_exon info = sint (edge_counter s + 1)
                 \<and> edge_counter s1 = edge_counter s + 1
                 \<and> search_for_edge (sei_start_vertex info) (hd vertex_IDs) ''exon'' (edges s1)
                     = Some \<lparr>edge_ID = sei_start_exon info, v1 = sei_start_vertex info,
                             v2 = hd vertex_IDs, edge_type = ''exon'', e_strand = strand\<rparr>))"
  proof (cases "\<bar>d5\<bar> \<le> cutoff_5p ri")
    case True
    with r5v have "sv = start_vertex t \<and> sx = start_exon t \<and> sd = Some d5 \<and> sn = 0 \<and> s1 = s"
      unfolding r5_def by simp
    then have "sei_start_vertex info = start_vertex t \<and> sei_start_exon info = start_exon t
             \<and> sei_diff_5p info = Some d5 \<and> sei_start_novelty info = 0 \<and> s1 = s"
      unfolding sel .
    then show ?thesis unfolding if_P[OF True] .
  next
    case False
    with r5v have eq: "process_5p chrom positions strand vertex_IDs (gene_ID t) gene_starts ri s
               = Inr ((sei_start_vertex info, sei_start_exon info, sei_start_novelty info,
                       sk, sei_diff_5p info), s1)"
      unfolding r5_def sel[symmetric] by simp
    have ex: "\<exists>known. process_5p chrom positions strand vertex_IDs (gene_ID t) gene_starts ri s
               = Inr ((sei_start_vertex info, sei_start_exon info, sei_start_novelty info,
                       known, sei_diff_5p info), s1)"
      using eq by (rule exI)
    show ?thesis unfolding if_not_P[OF False]
      by (rule conjI[OF ex process_5p_spec[OF eq len vs lo5 hi5]])
  qed
  have p3: "(if \<bar>d3\<bar> \<le> cutoff_3p ri
        then sei_end_vertex info = end_vertex t \<and> sei_end_exon info = end_exon t
             \<and> sei_diff_3p info = Some d3 \<and> sei_end_novelty info = 0 \<and> s2 = s1
        else (\<exists>known. process_3p chrom positions strand vertex_IDs (gene_ID t) gene_ends ri s1
               = Inr ((sei_end_vertex info, sei_end_exon info, sei_end_novelty info,
                       known, sei_diff_3p info), s2))
          \<and> (case sei_diff_3p info of
                Some dd \<Rightarrow> \<exists>q. compute_delta q (last positions) strand = Inr dd
                   \<and> (q = last positions
                       \<or> (\<bar>q - last positions\<bar> \<le> cutoff_3p ri \<and> lo3 \<le> q \<and> q \<le> hi3))
                   \<and> ((\<exists>vx. search_for_vertex_at_pos chrom q (locations s1) = Some vx
                              \<and> location_ID vx = sei_end_vertex info)
                       \<or> (\<exists>ks. gene_ends (gene_ID t) = Some ks
                              \<and> (q, sei_end_vertex info) \<in> set ks))
                   \<and> locations s2 = locations s1 \<and> vertex_counter s2 = vertex_counter s1
              | None \<Rightarrow> search_for_vertex_at_pos chrom (last positions) (locations s1) = None
                   \<and> (\<forall>q. 0 < \<bar>q - last positions\<bar> \<and> \<bar>q - last positions\<bar> < cutoff_3p ri
                            \<and> lo3 < q \<and> q < hi3
                         \<longrightarrow> search_for_vertex_at_pos chrom q (locations s1) = None)
                   \<and> (\<forall>ks q v. gene_ends (gene_ID t) = Some ks \<and> (q, v) \<in> set ks
                            \<and> lo3 \<le> q \<and> q \<le> hi3
                         \<longrightarrow> cutoff_3p ri < \<bar>q - last positions\<bar>)
                   \<and> sei_end_vertex info = sint (vertex_counter s1 + 1)
                   \<and> vertex_counter s2 = vertex_counter s1 + 1
                   \<and> search_for_vertex_at_pos chrom (last positions) (locations s2)
                       = Some \<lparr>location_ID = sei_end_vertex info, genome_build = build ri,
                               v_chromosome = chrom, v_position = last positions\<rparr>)
          \<and> (if sei_end_novelty info = 0
              then \<exists>e. search_for_edge (last vertex_IDs) (sei_end_vertex info) ''exon'' (edges s1)
                          = Some e
                     \<and> edge_ID e = sei_end_exon info
                     \<and> edges s2 = edges s1 \<and> edge_counter s2 = edge_counter s1
              else sei_end_novelty info = 1
                 \<and> search_for_edge (last vertex_IDs) (sei_end_vertex info) ''exon'' (edges s1) = None
                 \<and> sei_end_exon info = sint (edge_counter s1 + 1)
                 \<and> edge_counter s2 = edge_counter s1 + 1
                 \<and> search_for_edge (last vertex_IDs) (sei_end_vertex info) ''exon'' (edges s2)
                     = Some \<lparr>edge_ID = sei_end_exon info, v1 = last vertex_IDs,
                             v2 = sei_end_vertex info, edge_type = ''exon'', e_strand = strand\<rparr>))"
  proof (cases "\<bar>d3\<bar> \<le> cutoff_3p ri")
    case True
    with r3v have "ev = end_vertex t \<and> ex = end_exon t \<and> ed = Some d3 \<and> en = 0 \<and> s2 = s1"
      unfolding r3_def by simp
    then have "sei_end_vertex info = end_vertex t \<and> sei_end_exon info = end_exon t
             \<and> sei_diff_3p info = Some d3 \<and> sei_end_novelty info = 0 \<and> s2 = s1"
      unfolding sel .
    then show ?thesis unfolding if_P[OF True] .
  next
    case False
    with r3v have eq: "process_3p chrom positions strand vertex_IDs (gene_ID t) gene_ends ri s1
               = Inr ((sei_end_vertex info, sei_end_exon info, sei_end_novelty info,
                       ek, sei_diff_3p info), s2)"
      unfolding r3_def sel[symmetric] by simp
    have ex: "\<exists>known. process_3p chrom positions strand vertex_IDs (gene_ID t) gene_ends ri s1
               = Inr ((sei_end_vertex info, sei_end_exon info, sei_end_novelty info,
                       known, sei_diff_3p info), s2)"
      using eq by (rule exI)
    show ?thesis unfolding if_not_P[OF False]
      by (rule conjI[OF ex process_3p_spec[OF eq len vs lo3 hi3]])
  qed
  show ?thesis
    apply (rule exI[of _ info], rule exI[of _ s1], rule exI[of _ s2])
    apply (rule conjI[OF run conjI[OF key conjI[OF tn conjI[OF p5 conjI[OF p3 conjI[OF vids eids]]]]]])
    done
qed


text \<open>
  Three reads against transcript 42. Positions 110, 200, 300, 390: both ends lie 10 bp
  inside the termini and are inherited, the state is untouched. Positions 40, 200, 300,
  390: the 5' end is 60 bp upstream of the start at 100, beyond the cutoff of 50, and no
  vertex lies within the cutoff, so vertex 5 is created at 40 with the new exon edge 4;
  the 3' end is inherited. Positions 30, 200, 300, 470 on the graph that also holds
  vertex 5 at 20 and the edge 4 from it: the 5' end, 70 bp upstream, is matched by the
  permissive search to vertex 5 at distance 10 with the known edge 4, and the 3' end, 70 bp
  downstream, gets the new vertex 6 and the new edge 5.
\<close>

theorem process_FSM_inherits_witness:
  "(\<exists>info s'.
     process_FSM ''chr1'' [110, 200, 300, 390] ''+'' [2] [2, 3] [fsm_transcript]
        Map.empty Map.empty ex_run_info fsm_state
       = Inr ((Some 7, Some 42, [], SEI info), s')
     \<and> sei_start_vertex info = 1 \<and> sei_start_exon info = 1 \<and> sei_diff_5p info = Some 10
     \<and> sei_end_vertex info = 4 \<and> sei_end_exon info = 3 \<and> sei_diff_3p info = Some (- 10)
     \<and> s' = fsm_state)
   \<and> (\<exists>info s'.
     process_FSM ''chr1'' [40, 200, 300, 390] ''+'' [2] [2, 3] [fsm_transcript]
        Map.empty Map.empty ex_run_info fsm_state
       = Inr ((Some 7, Some 42, [], SEI info), s')
     \<and> sei_start_vertex info = 5 \<and> sei_start_exon info = 4 \<and> sei_start_novelty info = 1
     \<and> sei_diff_5p info = None
     \<and> sei_end_vertex info = 4 \<and> sei_end_exon info = 3 \<and> sei_diff_3p info = Some (- 10)
     \<and> sei_vertex_IDs info = [5, 2, 3, 4] \<and> sei_edge_IDs info = [4, 2, 3]
     \<and> search_for_vertex_at_pos ''chr1'' 40 (locations s')
         = Some \<lparr>location_ID = 5, genome_build = ''hg38'', v_chromosome = ''chr1'', v_position = 40\<rparr>
     \<and> search_for_edge 5 2 ''exon'' (edges s')
         = Some \<lparr>edge_ID = 4, v1 = 5, v2 = 2, edge_type = ''exon'', e_strand = ''+''\<rparr>
     \<and> vertex_counter s' = 5 \<and> edge_counter s' = 4)
   \<and> (\<exists>info s'.
     process_FSM ''chr1'' [30, 200, 300, 470] ''+'' [2] [2, 3] [fsm_transcript, alt_transcript]
        Map.empty Map.empty ex_run_info alt_state
       = Inr ((Some 7, Some 42, [], SEI info), s')
     \<and> sei_start_vertex info = 5 \<and> sei_start_exon info = 4 \<and> sei_start_novelty info = 0
     \<and> sei_diff_5p info = Some 10
     \<and> sei_end_vertex info = 6 \<and> sei_end_exon info = 5 \<and> sei_end_novelty info = 1
     \<and> sei_diff_3p info = None
     \<and> search_for_vertex_at_pos ''chr1'' 470 (locations s')
         = Some \<lparr>location_ID = 6, genome_build = ''hg38'', v_chromosome = ''chr1'', v_position = 470\<rparr>
     \<and> search_for_edge 3 6 ''exon'' (edges s')
         = Some \<lparr>edge_ID = 5, v1 = 3, v2 = 6, edge_type = ''exon'', e_strand = ''+''\<rparr>
     \<and> vertex_counter s' = 6 \<and> edge_counter s' = 5)"
proof -
  have ism: "search_for_ISM [2] (transcripts fsm_state) = Some [fsm_transcript]"
    by (simp add: search_for_ISM_def fsm_state_def)
  have vs: "[2, 3 :: int] \<noteq> []" by simp
  have A: "\<exists>info s'.
     process_FSM ''chr1'' [110, 200, 300, 390] ''+'' [2] [2, 3] [fsm_transcript]
        Map.empty Map.empty ex_run_info fsm_state
       = Inr ((Some 7, Some 42, [], SEI info), s')
     \<and> sei_start_vertex info = 1 \<and> sei_start_exon info = 1 \<and> sei_diff_5p info = Some 10
     \<and> sei_end_vertex info = 4 \<and> sei_end_exon info = 3 \<and> sei_diff_3p info = Some (- 10)
     \<and> s' = fsm_state"
  proof -
    have fsm: "filter (\<lambda>x. n_exons x = int (length [110, 200, 300, 390 :: int]) div 2) [fsm_transcript]
              = fsm_transcript # []"
      by (simp add: fsm_transcript_def)
    have len: "length [110, 200, 300, 390 :: int] \<ge> 2" by simp
    have d5: "compute_delta (start_pos fsm_transcript) (hd [110, 200, 300, 390]) ''+'' = Inr 10"
      by (simp add: compute_delta_def fsm_transcript_def)
    have d3: "compute_delta (end_pos fsm_transcript) (last [110, 200, 300, 390]) ''+'' = Inr (- 10)"
      by (simp add: compute_delta_def fsm_transcript_def)
    obtain info s1 s' where r:
      "process_FSM ''chr1'' [110, 200, 300, 390] ''+'' [2] [2, 3] [fsm_transcript]
          Map.empty Map.empty ex_run_info fsm_state
         = Inr ((Some (gene_ID fsm_transcript), Some (transcript_ID fsm_transcript), [], SEI info), s')"
      "if \<bar>10\<bar> \<le> cutoff_5p ex_run_info
          then sei_start_vertex info = start_vertex fsm_transcript \<and> sei_start_exon info = start_exon fsm_transcript
               \<and> sei_diff_5p info = Some 10 \<and> sei_start_novelty info = 0 \<and> s1 = fsm_state
          else False"
      "if \<bar>- 10\<bar> \<le> cutoff_3p ex_run_info
          then sei_end_vertex info = end_vertex fsm_transcript \<and> sei_end_exon info = end_exon fsm_transcript
               \<and> sei_diff_3p info = Some (- 10) \<and> sei_end_novelty info = 0 \<and> s' = s1
          else False"
      using process_FSM_inherits[OF ism fsm len vs d5 d3 refl refl refl refl,
                                 of "''chr1''" Map.empty Map.empty ex_run_info]
      by (auto simp: ex_run_info_def)
    from r(2) have a: "sei_start_vertex info = 1 \<and> sei_start_exon info = 1 \<and> sei_diff_5p info = Some 10 \<and> s1 = fsm_state"
      by (simp add: fsm_transcript_def ex_run_info_def)
    from r(3) have b: "sei_end_vertex info = 4 \<and> sei_end_exon info = 3 \<and> sei_diff_3p info = Some (- 10) \<and> s' = s1"
      by (simp add: fsm_transcript_def ex_run_info_def)
    from r(1) have c: "process_FSM ''chr1'' [110, 200, 300, 390] ''+'' [2] [2, 3] [fsm_transcript]
          Map.empty Map.empty ex_run_info fsm_state = Inr ((Some 7, Some 42, [], SEI info), s')"
      by (simp add: fsm_transcript_def)
    from a b c show ?thesis by blast
  qed
  have B: "\<exists>info s'.
     process_FSM ''chr1'' [40, 200, 300, 390] ''+'' [2] [2, 3] [fsm_transcript]
        Map.empty Map.empty ex_run_info fsm_state
       = Inr ((Some 7, Some 42, [], SEI info), s')
     \<and> sei_start_vertex info = 5 \<and> sei_start_exon info = 4 \<and> sei_start_novelty info = 1
     \<and> sei_diff_5p info = None
     \<and> sei_end_vertex info = 4 \<and> sei_end_exon info = 3 \<and> sei_diff_3p info = Some (- 10)
     \<and> sei_vertex_IDs info = [5, 2, 3, 4] \<and> sei_edge_IDs info = [4, 2, 3]
     \<and> search_for_vertex_at_pos ''chr1'' 40 (locations s')
         = Some \<lparr>location_ID = 5, genome_build = ''hg38'', v_chromosome = ''chr1'', v_position = 40\<rparr>
     \<and> search_for_edge 5 2 ''exon'' (edges s')
         = Some \<lparr>edge_ID = 4, v1 = 5, v2 = 2, edge_type = ''exon'', e_strand = ''+''\<rparr>
     \<and> vertex_counter s' = 5 \<and> edge_counter s' = 4"
  proof -
    have fsm: "filter (\<lambda>x. n_exons x = int (length [40, 200, 300, 390 :: int]) div 2) [fsm_transcript]
              = fsm_transcript # []"
      by (simp add: fsm_transcript_def)
    have len: "length [40, 200, 300, 390 :: int] \<ge> 2" by simp
    have d5: "compute_delta (start_pos fsm_transcript) (hd [40, 200, 300, 390]) ''+'' = Inr (- 60)"
      by (simp add: compute_delta_def fsm_transcript_def)
    have d3: "compute_delta (end_pos fsm_transcript) (last [40, 200, 300, 390]) ''+'' = Inr (- 10)"
      by (simp add: compute_delta_def fsm_transcript_def)
    obtain info s' where r:
      "process_FSM ''chr1'' [40, 200, 300, 390] ''+'' [2] [2, 3] [fsm_transcript]
          Map.empty Map.empty ex_run_info fsm_state
         = Inr ((Some (gene_ID fsm_transcript), Some (transcript_ID fsm_transcript), [], SEI info), s')"
      using process_FSM_inherits[OF ism fsm len vs d5 d3 refl refl refl refl,
                                 of "''chr1''" Map.empty Map.empty ex_run_info]
      by blast
    have ev: "(case process_FSM ''chr1'' [40, 200, 300, 390] ''+'' [2] [2, 3] [fsm_transcript]
                 Map.empty Map.empty ex_run_info fsm_state of
            Inr ((g, tr, nov, SEI i), st) \<Rightarrow>
              g = Some 7 \<and> tr = Some 42
              \<and> sei_start_vertex i = 5 \<and> sei_start_exon i = 4 \<and> sei_start_novelty i = 1
              \<and> sei_diff_5p i = None
              \<and> sei_end_vertex i = 4 \<and> sei_end_exon i = 3 \<and> sei_diff_3p i = Some (- 10)
              \<and> sei_vertex_IDs i = [5, 2, 3, 4] \<and> sei_edge_IDs i = [4, 2, 3]
              \<and> search_for_vertex_at_pos ''chr1'' 40 (locations st)
                  = Some \<lparr>location_ID = 5, genome_build = ''hg38'', v_chromosome = ''chr1'', v_position = 40\<rparr>
              \<and> search_for_edge 5 2 ''exon'' (edges st)
                  = Some \<lparr>edge_ID = 4, v1 = 5, v2 = 2, edge_type = ''exon'', e_strand = ''+''\<rparr>
              \<and> vertex_counter st = 5 \<and> edge_counter st = 4
          | _ \<Rightarrow> False)"
      by code_simp
    from ev r show ?thesis by simp
  qed
  have C: "\<exists>info s'.
     process_FSM ''chr1'' [30, 200, 300, 470] ''+'' [2] [2, 3] [fsm_transcript, alt_transcript]
        Map.empty Map.empty ex_run_info alt_state
       = Inr ((Some 7, Some 42, [], SEI info), s')
     \<and> sei_start_vertex info = 5 \<and> sei_start_exon info = 4 \<and> sei_start_novelty info = 0
     \<and> sei_diff_5p info = Some 10
     \<and> sei_end_vertex info = 6 \<and> sei_end_exon info = 5 \<and> sei_end_novelty info = 1
     \<and> sei_diff_3p info = None
     \<and> search_for_vertex_at_pos ''chr1'' 470 (locations s')
         = Some \<lparr>location_ID = 6, genome_build = ''hg38'', v_chromosome = ''chr1'', v_position = 470\<rparr>
     \<and> search_for_edge 3 6 ''exon'' (edges s')
         = Some \<lparr>edge_ID = 5, v1 = 3, v2 = 6, edge_type = ''exon'', e_strand = ''+''\<rparr>
     \<and> vertex_counter s' = 6 \<and> edge_counter s' = 5"
  proof -
    have ism2: "search_for_ISM [2] (transcripts alt_state) = Some [fsm_transcript, alt_transcript]"
      by (simp add: search_for_ISM_def alt_state_def)
    have fsm: "filter (\<lambda>x. n_exons x = int (length [30, 200, 300, 470 :: int]) div 2)
                 [fsm_transcript, alt_transcript]
              = fsm_transcript # [alt_transcript]"
      by (simp add: fsm_transcript_def alt_transcript_def)
    have len: "length [30, 200, 300, 470 :: int] \<ge> 2" by simp
    have d5: "compute_delta (start_pos fsm_transcript) (hd [30, 200, 300, 470]) ''+'' = Inr (- 70)"
      by (simp add: compute_delta_def fsm_transcript_def)
    have d3: "compute_delta (end_pos fsm_transcript) (last [30, 200, 300, 470]) ''+'' = Inr 70"
      by (simp add: compute_delta_def fsm_transcript_def)
    obtain info s' where r:
      "process_FSM ''chr1'' [30, 200, 300, 470] ''+'' [2] [2, 3] [fsm_transcript, alt_transcript]
          Map.empty Map.empty ex_run_info alt_state
         = Inr ((Some (gene_ID fsm_transcript), Some (transcript_ID fsm_transcript), [], SEI info), s')"
      using process_FSM_inherits[OF ism2 fsm len vs d5 d3 refl refl refl refl,
                                 of "''chr1''" Map.empty Map.empty ex_run_info]
      by blast
    have ev: "(case process_FSM ''chr1'' [30, 200, 300, 470] ''+'' [2] [2, 3]
                 [fsm_transcript, alt_transcript] Map.empty Map.empty ex_run_info alt_state of
            Inr ((g, tr, nov, SEI i), st) \<Rightarrow>
              g = Some 7 \<and> tr = Some 42
              \<and> sei_start_vertex i = 5 \<and> sei_start_exon i = 4 \<and> sei_start_novelty i = 0
              \<and> sei_diff_5p i = Some 10
              \<and> sei_end_vertex i = 6 \<and> sei_end_exon i = 5 \<and> sei_end_novelty i = 1
              \<and> sei_diff_3p i = None
              \<and> search_for_vertex_at_pos ''chr1'' 470 (locations st)
                  = Some \<lparr>location_ID = 6, genome_build = ''hg38'', v_chromosome = ''chr1'', v_position = 470\<rparr>
              \<and> search_for_edge 3 6 ''exon'' (edges st)
                  = Some \<lparr>edge_ID = 5, v1 = 3, v2 = 6, edge_type = ''exon'', e_strand = ''+''\<rparr>
              \<and> vertex_counter st = 6 \<and> edge_counter st = 5
          | _ \<Rightarrow> False)"
      by code_simp
    from ev r show ?thesis by simp
  qed
  from A B C show ?thesis by (intro conjI)
qed

subsection \<open>Permissive end search at the cutoff\<close>

text \<open>
  C4. The loop of \<open>permissive_vertex_search\<close> runs over \<open>range(1, max_dist)\<close>, the
  offsets 1 to cutoff - 1. With a cutoff of 50, a 5' end at position 50 on the plus strand
  and the known vertex 1 at position 100 (offset 50, inside the window from 0 to the
  splice junction at 200), the search finds nothing; one base closer, at 51, it finds
  vertex 1 at distance -49. The gene-priority search of the same end, whose test is
  \<open>min_abs_dist <= max_dist\<close>, accepts the vertex at offset 50.
\<close>

theorem permissive_search_misses_offset_cutoff:
  "permissive_vertex_search ''chr1'' 50 ''+'' 200 ''start'' ex_locations ex_run_info
     = Inr (None, None)
   \<and> permissive_vertex_search ''chr1'' 51 ''+'' 200 ''start'' ex_locations ex_run_info
     = Inr (Some 1, Some (- 49))
   \<and> permissive_match_with_gene_priority ''chr1'' 50 ''+'' 200 ''start'' 7 [7 \<mapsto> [(100, 1)]]
       ex_locations ex_run_info
     = Inr (Some 1, Some (- 50), 1)"
  by code_simp

subsection \<open>Gene assignment by span overlap\<close>

lemma best_match_loop_first_min:
  "best_match_loop a b ms (d0, bm0) = (d, bm) \<Longrightarrow>
     (if \<forall>m\<in>set ms. match_dist a b m \<ge> d0 then d = d0 \<and> bm = bm0
      else \<exists>pre m post. ms = pre @ m # post \<and> bm = Some m \<and> d = match_dist a b m
             \<and> match_dist a b m < d0
             \<and> (\<forall>x\<in>set pre. match_dist a b x > match_dist a b m)
             \<and> (\<forall>x\<in>set post. match_dist a b x \<ge> match_dist a b m))"
proof (induction ms arbitrary: d0 bm0)
  case Nil
  then show ?case by simp
next
  case (Cons x xs)
  show ?case
  proof (cases "match_dist a b x < d0")
    case True
    with Cons.prems have run: "best_match_loop a b xs (match_dist a b x, Some x) = (d, bm)"
      by (simp add: Let_def)
    note ih = Cons.IH[OF run]
    show ?thesis
    proof (cases "\<forall>m\<in>set xs. match_dist a b m \<ge> match_dist a b x")
      case all: True
      with ih have "d = match_dist a b x \<and> bm = Some x" by simp
      with True all have "x # xs = [] @ x # xs \<and> bm = Some x \<and> d = match_dist a b x
             \<and> match_dist a b x < d0
             \<and> (\<forall>y\<in>set []. match_dist a b y > match_dist a b x)
             \<and> (\<forall>y\<in>set xs. match_dist a b y \<ge> match_dist a b x)" by simp
      then have "\<exists>pre m post. x # xs = pre @ m # post \<and> bm = Some m \<and> d = match_dist a b m
             \<and> match_dist a b m < d0
             \<and> (\<forall>x\<in>set pre. match_dist a b x > match_dist a b m)
             \<and> (\<forall>x\<in>set post. match_dist a b x \<ge> match_dist a b m)" by blast
      with True show ?thesis by auto
    next
      case False
      with ih obtain pre m post where p: "xs = pre @ m # post" "bm = Some m" "d = match_dist a b m"
             "match_dist a b m < match_dist a b x"
             "\<forall>y\<in>set pre. match_dist a b y > match_dist a b m"
             "\<forall>y\<in>set post. match_dist a b y \<ge> match_dist a b m" by auto
      with True have "x # xs = (x # pre) @ m # post \<and> bm = Some m \<and> d = match_dist a b m
             \<and> match_dist a b m < d0
             \<and> (\<forall>y\<in>set (x # pre). match_dist a b y > match_dist a b m)
             \<and> (\<forall>y\<in>set post. match_dist a b y \<ge> match_dist a b m)" by simp
      then have "\<exists>pre m post. x # xs = pre @ m # post \<and> bm = Some m \<and> d = match_dist a b m
             \<and> match_dist a b m < d0
             \<and> (\<forall>x\<in>set pre. match_dist a b x > match_dist a b m)
             \<and> (\<forall>x\<in>set post. match_dist a b x \<ge> match_dist a b m)" by blast
      with True show ?thesis by auto
    qed
  next
    case ge: False
    with Cons.prems have run: "best_match_loop a b xs (d0, bm0) = (d, bm)"
      by (simp add: Let_def)
    note ih = Cons.IH[OF run]
    show ?thesis
    proof (cases "\<forall>m\<in>set xs. match_dist a b m \<ge> d0")
      case True
      with ih ge show ?thesis by simp
    next
      case False
      with ih obtain pre m post where p: "xs = pre @ m # post" "bm = Some m" "d = match_dist a b m"
             "match_dist a b m < d0"
             "\<forall>y\<in>set pre. match_dist a b y > match_dist a b m"
             "\<forall>y\<in>set post. match_dist a b y \<ge> match_dist a b m" by auto
      with ge have "x # xs = (x # pre) @ m # post \<and> bm = Some m \<and> d = match_dist a b m
             \<and> match_dist a b m < d0
             \<and> (\<forall>y\<in>set (x # pre). match_dist a b y > match_dist a b m)
             \<and> (\<forall>y\<in>set post. match_dist a b y \<ge> match_dist a b m)" by simp
      then have "\<exists>pre m post. x # xs = pre @ m # post \<and> bm = Some m \<and> d = match_dist a b m
             \<and> match_dist a b m < d0
             \<and> (\<forall>x\<in>set pre. match_dist a b x > match_dist a b m)
             \<and> (\<forall>x\<in>set post. match_dist a b x \<ge> match_dist a b m)" by blast
      with False show ?thesis by auto
    qed
  qed
qed

lemma get_best_match_first_min:
  assumes "ms \<noteq> []" and "\<forall>m\<in>set ms. match_dist a b m < sys_maxsize"
  shows "\<exists>pre m post. get_best_match ms a b = Inr m \<and> ms = pre @ m # post
           \<and> (\<forall>x\<in>set pre. match_dist a b x > match_dist a b m)
           \<and> (\<forall>x\<in>set post. match_dist a b x \<ge> match_dist a b m)"
proof -
  obtain d bm where r: "best_match_loop a b ms (sys_maxsize, None) = (d, bm)" by force
  from assms have "\<not> (\<forall>m\<in>set ms. match_dist a b m \<ge> sys_maxsize)"
    by (metis all_not_in_conv not_less set_empty)
  with best_match_loop_first_min[OF r] obtain pre m post where
    "ms = pre @ m # post" "bm = Some m"
    "\<forall>x\<in>set pre. match_dist a b x > match_dist a b m"
    "\<forall>x\<in>set post. match_dist a b x \<ge> match_dist a b m" by auto
  with r show ?thesis by (auto simp: get_best_match_def)
qed

lemma query_overlap_rows:
  assumes "\<forall>rows. rows \<noteq> [] \<longrightarrow> bare_row rows \<in> set rows"
    and "m \<in> set (query_overlap bare_row table chrom lo hi)"
  shows "m \<in> set table \<and> span_overlaps chrom lo hi m"
proof -
  let ?hits = "filter (span_overlaps chrom lo hi) table"
  from assms(2) obtain g where g: "g \<in> set (map r_gene_ID ?hits)"
    and m: "m = bare_row (filter (\<lambda>r. r_gene_ID r = g) ?hits)"
    by (auto simp: query_overlap_def Let_def)
  from g have "filter (\<lambda>r. r_gene_ID r = g) ?hits \<noteq> []"
    by (auto simp: filter_empty_conv)
  with assms(1) m have "m \<in> set (filter (\<lambda>r. r_gene_ID r = g) ?hits)" by blast
  then show ?thesis by auto
qed

lemma filter_strand_opposite:
  assumes "\<forall>r\<in>set ms. r_strand r = ''+'' \<or> r_strand r = ''-''"
    and "\<not> (\<exists>x\<in>set ms. r_strand x = ''+'')"
  shows "filter (\<lambda>x. r_strand x = ''-'') ms = ms"
  using assms by (auto simp: filter_id_conv)

lemma filter_strand_opposite2:
  assumes "\<forall>r\<in>set ms. r_strand r = ''+'' \<or> r_strand r = ''-''"
    and "\<not> (\<exists>x\<in>set ms. r_strand x = ''-'')"
  shows "filter (\<lambda>x. r_strand x = ''+'') ms = ms"
  using assms by (auto simp: filter_id_conv)

lemma search_matches_considered:
  "(case gene_IDs of
      Some (g # gs) \<Rightarrow> filter (\<lambda>m. r_gene_ID m \<in> set (g # gs))
         (case gene_IDs of Some ids \<Rightarrow> query_gene_ids table ids | None \<Rightarrow> q)
    | _ \<Rightarrow> (case gene_IDs of Some ids \<Rightarrow> query_gene_ids table ids | None \<Rightarrow> q))
   = (case gene_IDs of Some ids \<Rightarrow> filter (\<lambda>r. r_gene_ID r \<in> set ids) table | None \<Rightarrow> q)"
  by (auto simp: query_gene_ids_def split: option.splits list.splits)

text \<open>
  C6, amended. Without a candidate list the function considers one row per gene among
  the transcript spans on the read's chromosome that meet the read interval (bounds
  inclusive). With a candidate list it considers every transcript span of the candidate
  genes, with no condition on the chromosome or on overlap. With nothing to consider it
  returns (None, None). Otherwise the pool is the same-strand rows if there are any, else
  all (opposite-strand) rows, and the result is the gene and strand of the first row of
  the pool that minimises |max_pos - read end| + |min_pos - read start|: every earlier
  row of the pool is strictly farther, no later row is nearer.
\<close>

theorem search_for_overlap_with_gene_choice:
  assumes strand: "strand = ''+'' \<or> strand = ''-''"
    and rows: "\<forall>r\<in>set table. r_strand r = ''+'' \<or> r_strand r = ''-''"
    and bare: "\<forall>rows. rows \<noteq> [] \<longrightarrow> bare_row rows \<in> set rows"
    and small: "\<forall>r\<in>set table. match_dist (min a b) (max a b) r < sys_maxsize"
    and cons: "considered = (case gene_IDs of
                 Some ids \<Rightarrow> filter (\<lambda>r. r_gene_ID r \<in> set ids) table
               | None \<Rightarrow> query_overlap bare_row table chrom (min a b) (max a b))"
    and pool: "pool = (if \<exists>x\<in>set considered. r_strand x = strand
                       then filter (\<lambda>x. r_strand x = strand) considered else considered)"
  shows "(gene_IDs = None \<longrightarrow>
            (\<forall>m\<in>set considered. m \<in> set table \<and> span_overlaps chrom (min a b) (max a b) m))
       \<and> (considered = [] \<longrightarrow>
            search_for_overlap_with_gene bare_row chrom a b strand table gene_IDs = Inr (None, None))
       \<and> (considered \<noteq> [] \<longrightarrow>
            (\<exists>pre m post.
               search_for_overlap_with_gene bare_row chrom a b strand table gene_IDs
                 = Inr (Some (r_gene_ID m), Some (r_strand m))
               \<and> pool = pre @ m # post
               \<and> (\<forall>x\<in>set pre. match_dist (min a b) (max a b) x > match_dist (min a b) (max a b) m)
               \<and> (\<forall>x\<in>set post. match_dist (min a b) (max a b) x \<ge> match_dist (min a b) (max a b) m)))"
proof -
  have sub: "set considered \<subseteq> set table"
  proof (cases gene_IDs)
    case None
    then show ?thesis using query_overlap_rows[OF bare] cons by auto
  next
    case (Some ids)
    then show ?thesis using cons by auto
  qed
  have p1: "gene_IDs = None \<longrightarrow>
            (\<forall>m\<in>set considered. m \<in> set table \<and> span_overlaps chrom (min a b) (max a b) m)"
    using query_overlap_rows[OF bare] cons by auto
  have unfold: "search_for_overlap_with_gene bare_row chrom a b strand table gene_IDs =
     (if length considered = 0 then Inr (None, None)
      else
        case get_best_match
              (if (strand = ''+'' \<and> length (filter (\<lambda>x. r_strand x = strand) considered) > 0)
                         \<or> (strand = ''-'' \<and> length (filter (\<lambda>x. r_strand x = strand) considered) = 0)
                      then filter (\<lambda>x. r_strand x = ''+'') considered
                      else filter (\<lambda>x. r_strand x = ''-'') considered) (min a b) (max a b) of
          Inl e \<Rightarrow> Inl e
        | Inr best_match \<Rightarrow> Inr (Some (r_gene_ID best_match), Some (r_strand best_match)))"
    unfolding search_for_overlap_with_gene_def Let_def search_matches_considered cons by simp
  have p2: "considered = [] \<longrightarrow>
            search_for_overlap_with_gene bare_row chrom a b strand table gene_IDs = Inr (None, None)"
    unfolding unfold by simp
  have crow: "\<forall>r\<in>set considered. r_strand r = ''+'' \<or> r_strand r = ''-''"
    using rows sub by blast
  have chosen: "(if (strand = ''+'' \<and> length (filter (\<lambda>x. r_strand x = strand) considered) > 0)
                         \<or> (strand = ''-'' \<and> length (filter (\<lambda>x. r_strand x = strand) considered) = 0)
                      then filter (\<lambda>x. r_strand x = ''+'') considered
                      else filter (\<lambda>x. r_strand x = ''-'') considered) = pool"
  proof (cases "\<exists>x\<in>set considered. r_strand x = strand")
    case True
    then have "length (filter (\<lambda>x. r_strand x = strand) considered) > 0"
      by (auto simp: filter_empty_conv)
    with True strand show ?thesis unfolding pool by auto
  next
    case False
    then have z: "length (filter (\<lambda>x. r_strand x = strand) considered) = 0"
      by (auto simp: filter_empty_conv)
    from strand show ?thesis
    proof
      assume s: "strand = ''+''"
      with False crow have "filter (\<lambda>x. r_strand x = ''-'') considered = considered"
        using filter_strand_opposite by blast
      with s z False show ?thesis unfolding pool by simp
    next
      assume s: "strand = ''-''"
      with False crow have "filter (\<lambda>x. r_strand x = ''+'') considered = considered"
        using filter_strand_opposite2 by blast
      with s z False show ?thesis unfolding pool by simp
    qed
  qed
  have p3: "considered \<noteq> [] \<longrightarrow>
            (\<exists>pre m post.
               search_for_overlap_with_gene bare_row chrom a b strand table gene_IDs
                 = Inr (Some (r_gene_ID m), Some (r_strand m))
               \<and> pool = pre @ m # post
               \<and> (\<forall>x\<in>set pre. match_dist (min a b) (max a b) x > match_dist (min a b) (max a b) m)
               \<and> (\<forall>x\<in>set post. match_dist (min a b) (max a b) x \<ge> match_dist (min a b) (max a b) m))"
  proof
    assume ne: "considered \<noteq> []"
    have pne: "pool \<noteq> []"
      unfolding pool using ne by (auto simp: filter_empty_conv)
    have psub: "set pool \<subseteq> set table" unfolding pool using sub by auto
    with small have ps: "\<forall>m\<in>set pool. match_dist (min a b) (max a b) m < sys_maxsize" by blast
    from get_best_match_first_min[OF pne ps] obtain pre m post where
      g: "get_best_match pool (min a b) (max a b) = Inr m" "pool = pre @ m # post"
         "\<forall>x\<in>set pre. match_dist (min a b) (max a b) x > match_dist (min a b) (max a b) m"
         "\<forall>x\<in>set post. match_dist (min a b) (max a b) x \<ge> match_dist (min a b) (max a b) m"
      by blast
    have "search_for_overlap_with_gene bare_row chrom a b strand table gene_IDs
                 = Inr (Some (r_gene_ID m), Some (r_strand m))"
      unfolding unfold chosen using ne g(1) by simp
    with g show "\<exists>pre m post.
               search_for_overlap_with_gene bare_row chrom a b strand table gene_IDs
                 = Inr (Some (r_gene_ID m), Some (r_strand m))
               \<and> pool = pre @ m # post
               \<and> (\<forall>x\<in>set pre. match_dist (min a b) (max a b) x > match_dist (min a b) (max a b) m)
               \<and> (\<forall>x\<in>set post. match_dist (min a b) (max a b) x \<ge> match_dist (min a b) (max a b) m)"
      by blast
  qed
  from p1 p2 p3 show ?thesis by blast
qed

text \<open>
  C6, as the specification states it, fails on the code: with the candidate genes 3 and 4
  the read 110 to 490 on the plus strand is assigned to gene 4, whose only span, 1000 to
  2000, does not overlap the read.
\<close>

theorem overlap_not_required_counterexample:
  "search_for_overlap_with_gene last ''chr1'' 110 490 ''+'' overlap_table (Some [3, 4])
     = Inr (Some 4, Some ''+'')
   \<and> far_row \<in> set overlap_table \<and> r_gene_ID far_row = 4
   \<and> \<not> span_overlaps ''chr1'' 110 490 far_row"
  unfolding overlap_table_def far_row_def by code_simp

text \<open>
  Genes 1 and 2 are equally far from the read (20 each); the first one met wins.
\<close>

theorem search_for_overlap_with_gene_choice_witness:
  "search_for_overlap_with_gene last ''chr1'' 110 490 ''+'' overlap_table None = Inr (Some 1, Some ''+'')
   \<and> match_dist 110 490 (overlap_table ! 0) = match_dist 110 490 (overlap_table ! 1)"
proof -
  have strand: "''+'' = ''+'' \<or> ''+'' = ''-''" by simp
  have rows: "\<forall>r\<in>set overlap_table. r_strand r = ''+'' \<or> r_strand r = ''-''"
    by (simp add: overlap_table_def)
  have bare: "\<forall>rows::t_row list. rows \<noteq> [] \<longrightarrow> last rows \<in> set rows" by simp
  have small: "\<forall>r\<in>set overlap_table. match_dist (min 110 490) (max 110 490) r < sys_maxsize"
    by (simp add: overlap_table_def match_dist_def sys_maxsize_def)
  have q: "query_overlap last overlap_table ''chr1'' 110 490 = take 3 overlap_table"
    unfolding overlap_table_def by code_simp
  have cons: "take 3 overlap_table = (case None :: int list option of
                 Some ids \<Rightarrow> filter (\<lambda>r. r_gene_ID r \<in> set ids) overlap_table
               | None \<Rightarrow> query_overlap last overlap_table ''chr1'' (min 110 490) (max 110 490))"
    using q by simp
  have pool: "take 2 overlap_table = (if \<exists>x\<in>set (take 3 overlap_table). r_strand x = ''+''
                       then filter (\<lambda>x. r_strand x = ''+'') (take 3 overlap_table)
                       else take 3 overlap_table)"
    by (simp add: overlap_table_def)
  have ne: "take 3 overlap_table \<noteq> []" by (simp add: overlap_table_def)
  from search_for_overlap_with_gene_choice[OF strand rows bare small cons pool] ne
  obtain pre m post where r:
    "search_for_overlap_with_gene last ''chr1'' 110 490 ''+'' overlap_table None
       = Inr (Some (r_gene_ID m), Some (r_strand m))"
    "take 2 overlap_table = pre @ m # post"
    "\<forall>x\<in>set pre. match_dist (min 110 490) (max 110 490) x > match_dist (min 110 490) (max 110 490) m"
    by blast
  from r(2) have "(pre = [] \<and> m = overlap_table ! 0) \<or> (pre = [overlap_table ! 0] \<and> m = overlap_table ! 1)"
    by (auto simp: overlap_table_def Cons_eq_append_conv)
  with r(3) have "m = overlap_table ! 0"
    by (auto simp: overlap_table_def match_dist_def)
  with r(1) show ?thesis by (simp add: overlap_table_def match_dist_def)
qed

subsection \<open>Incomplete splice matches\<close>

lemma ism_loop_multi:
  assumes "n \<noteq> 1" and "\<forall>m\<in>set ms. jn_path m \<noteq> None"
  shows "\<exists>g'. ism_loop n edge_IDs ms (I, P, S, g) =
           Inr (Inr (I @ map (\<lambda>m. str_int (transcript_ID m)) ms,
                     P @ map (\<lambda>m. str_int (transcript_ID m))
                           (filter (\<lambda>m. prefix (join '','' (map str_int (interior edge_IDs))) (the (jn_path m))) ms),
                     S @ map (\<lambda>m. str_int (transcript_ID m))
                           (filter (\<lambda>m. suffix (join '','' (map str_int (interior edge_IDs))) (the (jn_path m))) ms),
                     g'))
         \<and> (g' = g \<or> g' \<in> gene_ID ` set ms)"
  using assms(2)
proof (induction ms arbitrary: I P S g)
  case Nil
  then show ?case by simp
next
  case (Cons m ms)
  from Cons.prems obtain p where p: "jn_path m = Some p" by auto
  from Cons.prems have rest: "\<forall>m\<in>set ms. jn_path m \<noteq> None" by simp
  note ih = Cons.IH[OF rest]
  let ?es = "join '','' (map str_int (interior edge_IDs))"
  let ?id = "str_int (transcript_ID m)"
  let ?P' = "if prefix ?es p then P @ [?id] else P"
  let ?S' = "if suffix ?es p then S @ [?id] else S"
  let ?g' = "if suffix ?es p then gene_ID m else g"
  have step: "ism_loop n edge_IDs (m # ms) (I, P, S, g) = ism_loop n edge_IDs ms (I @ [?id], ?P', ?S', ?g')"
    using assms(1) p by (simp add: Let_def)
  from ih[of "I @ [?id]" ?P' ?S' ?g'] obtain g' where
    r: "ism_loop n edge_IDs ms (I @ [?id], ?P', ?S', ?g') =
           Inr (Inr ((I @ [?id]) @ map (\<lambda>m. str_int (transcript_ID m)) ms,
                     ?P' @ map (\<lambda>m. str_int (transcript_ID m))
                           (filter (\<lambda>m. prefix ?es (the (jn_path m))) ms),
                     ?S' @ map (\<lambda>m. str_int (transcript_ID m))
                           (filter (\<lambda>m. suffix ?es (the (jn_path m))) ms),
                     g'))"
    and g: "g' = ?g' \<or> g' \<in> gene_ID ` set ms" by blast
  have a: "(I @ [?id]) @ map (\<lambda>m. str_int (transcript_ID m)) ms = I @ map (\<lambda>m. str_int (transcript_ID m)) (m # ms)"
    by simp
  have b: "?P' @ map (\<lambda>m. str_int (transcript_ID m)) (filter (\<lambda>m. prefix ?es (the (jn_path m))) ms)
         = P @ map (\<lambda>m. str_int (transcript_ID m)) (filter (\<lambda>m. prefix ?es (the (jn_path m))) (m # ms))"
    using p by simp
  have c: "?S' @ map (\<lambda>m. str_int (transcript_ID m)) (filter (\<lambda>m. suffix ?es (the (jn_path m))) ms)
         = S @ map (\<lambda>m. str_int (transcript_ID m)) (filter (\<lambda>m. suffix ?es (the (jn_path m))) (m # ms))"
    using p by simp
  have d: "g' = g \<or> g' \<in> gene_ID ` set (m # ms)"
    using g by (auto split: if_splits)
  show ?case
    unfolding step r a b c using d by blast
qed

lemma interior_wrap: "interior ([a] @ xs @ [b]) = xs"
  by (simp add: interior_def butlast_append)

lemma ism_choose_gene_many:
  assumes "length (remdups (map gene_ID all_matches)) > 1"
    and "ism_choose_gene bare_row chrom positions strand all_matches s = Inr (Some g, gene_matches)"
  shows "gene_matches = filter (\<lambda>m. gene_ID m = g) all_matches"
proof (cases "index0 positions")
  case (Inl e)
  with assms show ?thesis by (simp add: ism_choose_gene_def)
next
  case p0: (Inr p0)
  show ?thesis
  proof (cases "index_last positions")
    case (Inl e)
    with assms p0 show ?thesis by (simp add: ism_choose_gene_def)
  next
    case pl: (Inr pl)
    show ?thesis
    proof (cases "search_for_overlap_with_gene bare_row chrom p0 pl strand (tmp_t s)
                (Some (remdups (map gene_ID all_matches)))")
      case (Inl e)
      with assms p0 pl show ?thesis by (simp add: ism_choose_gene_def)
    next
      case (Inr r)
      obtain g0 st where r: "r = (g0, st)" by force
      have eq: "ism_choose_gene bare_row chrom positions strand all_matches s
             = Inr (g0, filter (\<lambda>m. Some (gene_ID m) = g0) all_matches)"
        unfolding ism_choose_gene_def Let_def using assms(1) p0 pl Inr r by simp
      have "(g0, filter (\<lambda>m. Some (gene_ID m) = g0) all_matches) = (Some g, gene_matches)"
        using eq assms(2) by (metis sum.inject(2))
      then show ?thesis by auto
    qed
  qed
qed

lemma ism_choose_gene_one:
  assumes "\<not> length (remdups (map gene_ID all_matches)) > 1"
    and "ism_choose_gene bare_row chrom positions strand all_matches s = Inr (Some g, gene_matches)"
  shows "gene_matches = all_matches \<and> (\<forall>m\<in>set all_matches. gene_ID m = g)"
proof (cases all_matches)
  case Nil
  with assms show ?thesis by (simp add: ism_choose_gene_def index0_def)
next
  case (Cons m0 ms)
  with assms have g: "g = gene_ID m0" and gm: "gene_matches = all_matches"
    by (simp_all add: ism_choose_gene_def index0_def)
  from assms(1) have c: "card (gene_ID ` set all_matches) \<le> Suc 0"
    by (simp add: length_remdups_card_conv)
  have f: "finite (gene_ID ` set all_matches)" by simp
  from c have eq: "\<forall>a\<in>gene_ID ` set all_matches. \<forall>b\<in>gene_ID ` set all_matches. a = b"
    using card_le_Suc0_iff_eq[OF f] by blast
  have "gene_ID m0 \<in> gene_ID ` set all_matches" using Cons by simp
  with eq have "\<forall>m\<in>set all_matches. gene_ID m = gene_ID m0" by blast
  with g gm show ?thesis by simp
qed

lemma ism_choose_gene_filter:
  assumes "ism_choose_gene bare_row chrom positions strand all_matches s = Inr (Some g, gene_matches)"
  shows "gene_matches = filter (\<lambda>m. gene_ID m = g) all_matches"
proof (cases "length (remdups (map gene_ID all_matches)) > 1")
  case True
  then show ?thesis using ism_choose_gene_many assms by blast
next
  case False
  from ism_choose_gene_one[OF False assms] show ?thesis by (simp add: filter_id_conv)
qed

lemma create_transcript_returns:
  assumes "edge_IDs \<noteq> []" and "vertex_IDs \<noteq> []"
  shows "\<exists>t s'. create_transcript strand chrom a b g edge_IDs vertex_IDs s = Inr (t, s')
           \<and> transcript_ID t = sint (transcript_counter s + 1)"
proof -
  note a = index0_hd[OF assms(1)] and b = index_last_last[OF assms(1)]
    and c = index0_hd[OF assms(2)] and d = index_last_last[OF assms(2)]
  show ?thesis
    unfolding create_transcript_def increment_def Let_def prod.case a b c d sum.case
    by simp
qed

lemma process_ISM_multi_exon:
  assumes "ism_choose_gene bare_row chrom positions strand all_matches s = Inr (Some g, gene_matches)"
    and "int (length positions) div 2 > 1"
    and "process_5p chrom positions strand vertex_IDs g gene_starts ri s = Inr ((sv, sx, sn, sk, sd), s1)"
    and "process_3p chrom positions strand vertex_IDs g gene_ends ri s1 = Inr ((ev, ex, en, ek, ed), s2)"
    and "ism_loop (int (length positions) div 2) ([sx] @ edge_IDs @ [ex]) gene_matches ([], [], [], g)
           = Inr (Inr (ISM, P, S, g'))"
    and "index0 positions = Inr p0" and "index_last positions = Inr pl"
    and "create_transcript strand chrom p0 pl g' ([sx] @ edge_IDs @ [ex]) ([sv] @ vertex_IDs @ [ev]) s2
           = Inr (t, s3)"
  shows "process_ISM bare_row chrom positions strand edge_IDs vertex_IDs all_matches
           gene_starts gene_ends ri s
         = Inr ((Some g', Some (transcript_ID t), ism_novelty (transcript_ID t) ri ISM P S,
                 SEI \<lparr>sei_start_vertex = sv, sei_end_vertex = ev,
                      sei_start_exon = sx, sei_end_exon = ex,
                      sei_diff_5p = sd, sei_diff_3p = ed,
                      sei_start_novelty = sn, sei_end_novelty = en,
                      sei_vertex_IDs = [sv] @ vertex_IDs @ [ev],
                      sei_edge_IDs = [sx] @ edge_IDs @ [ex]\<rparr>), s3)"
  unfolding process_ISM_def Let_def
  by (simp only: assms if_True sum.case prod.case option.case)

text \<open>
  C5, amended. Take a read with at least two exons (four positions or more) for which
  \<open>process_ISM\<close> has assigned gene \<open>g\<close>; the matches it goes on with are the superset
  matches that belong to \<open>g\<close> (all of them when they lie in one gene). Then
  \<open>process_ISM\<close> returns with a new transcript whose novelty rows hold
  \<open>ISM_transcript = TRUE\<close> and \<open>ISM_to_IDs\<close>, the comma-joined IDs of those matches;
  and for each of those matches whose junction path has the read's comma-joined interior
  edge path as a string prefix (suffix), the rows hold \<open>ISM-prefix_transcript = TRUE\<close>
  (\<open>ISM-suffix_transcript = TRUE\<close>) and \<open>ISM-prefix_to_IDs\<close> (\<open>ISM-suffix_to_IDs\<close>)
  listing that match's ID.
\<close>

theorem process_ISM_labels:
  assumes len: "length positions \<ge> 4" and vs: "vertex_IDs \<noteq> []"
    and strand: "strand = ''+'' \<or> strand = ''-''"
    and choose: "ism_choose_gene bare_row chrom positions strand all_matches s = Inr (Some g, gene_matches)"
    and paths: "\<forall>m\<in>set gene_matches. jn_path m \<noteq> None"
    and es: "edge_str = join '','' (map str_int edge_IDs)"
  shows "gene_matches = filter (\<lambda>m. gene_ID m = g) all_matches
    \<and> (\<exists>g' tid novelty info s'.
         process_ISM bare_row chrom positions strand edge_IDs vertex_IDs all_matches
           gene_starts gene_ends ri s = Inr ((Some g', Some tid, novelty, info), s')
       \<and> (tid, idprefix ri, ''TALON'', ''ISM_transcript'', ''TRUE'') \<in> set novelty
       \<and> (tid, idprefix ri, ''TALON'', ''ISM_to_IDs'',
            join '','' (map (\<lambda>m. str_int (transcript_ID m)) gene_matches)) \<in> set novelty
       \<and> (\<forall>m\<in>set gene_matches. prefix edge_str (the (jn_path m)) \<longrightarrow>
             (tid, idprefix ri, ''TALON'', ''ISM-prefix_transcript'', ''TRUE'') \<in> set novelty
           \<and> (\<exists>ids. (tid, idprefix ri, ''TALON'', ''ISM-prefix_to_IDs'', join '','' ids) \<in> set novelty
                   \<and> str_int (transcript_ID m) \<in> set ids))
       \<and> (\<forall>m\<in>set gene_matches. suffix edge_str (the (jn_path m)) \<longrightarrow>
             (tid, idprefix ri, ''TALON'', ''ISM-suffix_transcript'', ''TRUE'') \<in> set novelty
           \<and> (\<exists>ids. (tid, idprefix ri, ''TALON'', ''ISM-suffix_to_IDs'', join '','' ids) \<in> set novelty
                   \<and> str_int (transcript_ID m) \<in> set ids)))"
proof -
  from len have len2: "length positions \<ge> 2" and ne: "positions \<noteq> []" by auto
  from len have n: "int (length positions) div 2 > 1" by linarith
  then have n1: "int (length positions) div 2 \<noteq> 1" by simp
  obtain sv sx sn sk sd s1 where r5:
    "process_5p chrom positions strand vertex_IDs g gene_starts ri s = Inr ((sv, sx, sn, sk, sd), s1)"
    using process_5p_returns[OF strand len2 vs] by (metis prod_cases5)
  obtain ev ex en ek ed s2 where r3:
    "process_3p chrom positions strand vertex_IDs g gene_ends ri s1 = Inr ((ev, ex, en, ek, ed), s2)"
    using process_3p_returns[OF strand len2 vs] by (metis prod_cases5)
  let ?ids = "map (\<lambda>m. str_int (transcript_ID m)) gene_matches"
  let ?pre = "map (\<lambda>m. str_int (transcript_ID m)) (filter (\<lambda>m. prefix edge_str (the (jn_path m))) gene_matches)"
  let ?suf = "map (\<lambda>m. str_int (transcript_ID m)) (filter (\<lambda>m. suffix edge_str (the (jn_path m))) gene_matches)"
  obtain g' where loop:
    "ism_loop (int (length positions) div 2) ([sx] @ edge_IDs @ [ex]) gene_matches ([], [], [], g)
       = Inr (Inr (?ids, ?pre, ?suf, g'))"
    using ism_loop_multi[OF n1 paths, of "[sx] @ edge_IDs @ [ex]" "[]" "[]" "[]" g]
    unfolding interior_wrap es by auto
  obtain t s3 where ct:
    "create_transcript strand chrom (hd positions) (last positions) g' ([sx] @ edge_IDs @ [ex])
       ([sv] @ vertex_IDs @ [ev]) s2 = Inr (t, s3)"
    using create_transcript_returns[of "[sx] @ edge_IDs @ [ex]" "[sv] @ vertex_IDs @ [ev]"
        strand chrom "hd positions" "last positions" g' s2] by auto
  let ?nov = "ism_novelty (transcript_ID t) ri ?ids ?pre ?suf"
  have run: "\<exists>info. process_ISM bare_row chrom positions strand edge_IDs vertex_IDs all_matches
           gene_starts gene_ends ri s = Inr ((Some g', Some (transcript_ID t), ?nov, info), s3)"
    using process_ISM_multi_exon[OF choose n r5 r3 loop index0_hd[OF ne] index_last_last[OF ne] ct]
    by blast
  have a: "(transcript_ID t, idprefix ri, ''TALON'', ''ISM_transcript'', ''TRUE'') \<in> set ?nov"
    by (simp add: ism_novelty_def)
  have b: "(transcript_ID t, idprefix ri, ''TALON'', ''ISM_to_IDs'', join '','' ?ids) \<in> set ?nov"
    by (simp add: ism_novelty_def)
  have c: "\<forall>m\<in>set gene_matches. prefix edge_str (the (jn_path m)) \<longrightarrow>
             (transcript_ID t, idprefix ri, ''TALON'', ''ISM-prefix_transcript'', ''TRUE'') \<in> set ?nov
           \<and> (\<exists>ids. (transcript_ID t, idprefix ri, ''TALON'', ''ISM-prefix_to_IDs'', join '','' ids) \<in> set ?nov
                   \<and> str_int (transcript_ID m) \<in> set ids)"
  proof (intro ballI impI)
    fix m assume m: "m \<in> set gene_matches" "prefix edge_str (the (jn_path m))"
    then have mem: "str_int (transcript_ID m) \<in> set ?pre" by simp
    then have "?pre \<noteq> []" by (metis empty_iff empty_set)
    then have "(transcript_ID t, idprefix ri, ''TALON'', ''ISM-prefix_transcript'', ''TRUE'') \<in> set ?nov"
      and "(transcript_ID t, idprefix ri, ''TALON'', ''ISM-prefix_to_IDs'', join '','' ?pre) \<in> set ?nov"
      by (simp_all add: ism_novelty_def)
    with mem show "(transcript_ID t, idprefix ri, ''TALON'', ''ISM-prefix_transcript'', ''TRUE'') \<in> set ?nov
           \<and> (\<exists>ids. (transcript_ID t, idprefix ri, ''TALON'', ''ISM-prefix_to_IDs'', join '','' ids) \<in> set ?nov
                   \<and> str_int (transcript_ID m) \<in> set ids)" by blast
  qed
  have d: "\<forall>m\<in>set gene_matches. suffix edge_str (the (jn_path m)) \<longrightarrow>
             (transcript_ID t, idprefix ri, ''TALON'', ''ISM-suffix_transcript'', ''TRUE'') \<in> set ?nov
           \<and> (\<exists>ids. (transcript_ID t, idprefix ri, ''TALON'', ''ISM-suffix_to_IDs'', join '','' ids) \<in> set ?nov
                   \<and> str_int (transcript_ID m) \<in> set ids)"
  proof (intro ballI impI)
    fix m assume m: "m \<in> set gene_matches" "suffix edge_str (the (jn_path m))"
    then have mem: "str_int (transcript_ID m) \<in> set ?suf" by simp
    then have "?suf \<noteq> []" by (metis empty_iff empty_set)
    then have "(transcript_ID t, idprefix ri, ''TALON'', ''ISM-suffix_transcript'', ''TRUE'') \<in> set ?nov"
      and "(transcript_ID t, idprefix ri, ''TALON'', ''ISM-suffix_to_IDs'', join '','' ?suf) \<in> set ?nov"
      by (simp_all add: ism_novelty_def)
    with mem show "(transcript_ID t, idprefix ri, ''TALON'', ''ISM-suffix_transcript'', ''TRUE'') \<in> set ?nov
           \<and> (\<exists>ids. (transcript_ID t, idprefix ri, ''TALON'', ''ISM-suffix_to_IDs'', join '','' ids) \<in> set ?nov
                   \<and> str_int (transcript_ID m) \<in> set ids)" by blast
  qed
  from run obtain info where run': "process_ISM bare_row chrom positions strand edge_IDs vertex_IDs
      all_matches gene_starts gene_ends ri s = Inr ((Some g', Some (transcript_ID t), ?nov, info), s3)"
    by (rule exE)
  show ?thesis
    apply (rule conjI)
     apply (rule ism_choose_gene_filter[OF choose])
    apply (rule exI[of _ g'], rule exI[of _ "transcript_ID t"], rule exI[of _ ?nov],
        rule exI[of _ info], rule exI[of _ s3])
    apply (intro conjI)
        apply (rule run')
       apply (rule a)
      apply (rule b)
     apply (rule c)
    apply (rule d)
    done
qed

text \<open>
  C5, as the specification states it, fails on the code. The read's interior edges 5, 6,
  7 are contained in transcripts 42 (gene 7) and 43 (gene 8), and the read's path 5,6,7 is
  a prefix of both junction paths. The tie between the genes goes to gene 7, and the rows
  of the new transcript 44 list transcript 42 only: 43 is missing from \<open>ISM_to_IDs\<close>
  and from \<open>ISM-prefix_to_IDs\<close>.
\<close>

theorem ism_lists_assigned_gene_only_counterexample:
  "search_for_ISM [5, 6, 7] (transcripts ism_state) = Some [ism_t1, ism_t2]
   \<and> outcome (process_ISM last ''chr1'' [100, 200, 300, 400, 500, 590] ''+'' [5, 6, 7] [2, 3, 4, 5]
        [ism_t1, ism_t2] Map.empty Map.empty ex_run_info ism_state)
     = Inr (Some 7, Some 44,
            [(44, ''TALON'', ''TALON'', ''ISM_transcript'', ''TRUE''),
             (44, ''TALON'', ''TALON'', ''ISM_to_IDs'', ''42''),
             (44, ''TALON'', ''TALON'', ''ISM-prefix_transcript'', ''TRUE''),
             (44, ''TALON'', ''TALON'', ''ISM-prefix_to_IDs'', ''42'')])
   \<and> transcript_ID ism_t2 = 43
   \<and> jn_path ism_t2 = Some ''5,6,7,8,11''
   \<and> join '','' (map str_int [5, 6, 7]) = ''5,6,7''
   \<and> prefix ''5,6,7'' ''5,6,7,8,11''"
proof -
  have a: "search_for_ISM [5, 6, 7] (transcripts ism_state) = Some [ism_t1, ism_t2]"
    by (simp add: search_for_ISM_def ism_state_def)
  have b: "outcome (process_ISM last ''chr1'' [100, 200, 300, 400, 500, 590] ''+'' [5, 6, 7] [2, 3, 4, 5]
        [ism_t1, ism_t2] Map.empty Map.empty ex_run_info ism_state)
     = Inr (Some 7, Some 44,
            [(44, ''TALON'', ''TALON'', ''ISM_transcript'', ''TRUE''),
             (44, ''TALON'', ''TALON'', ''ISM_to_IDs'', ''42''),
             (44, ''TALON'', ''TALON'', ''ISM-prefix_transcript'', ''TRUE''),
             (44, ''TALON'', ''TALON'', ''ISM-prefix_to_IDs'', ''42'')])"
    by code_simp
  have c: "transcript_ID ism_t2 = 43 \<and> jn_path ism_t2 = Some ''5,6,7,8,11''"
    by (simp add: ism_t2_def)
  have d: "join '','' (map str_int [5, 6, 7]) = ''5,6,7'' \<and> prefix ''5,6,7'' ''5,6,7,8,11''"
    by code_simp
  from a b c d show ?thesis by simp
qed

text \<open>The same read, through the theorem: gene 7 is assigned and its match 42 is listed.\<close>

theorem process_ISM_labels_witness:
  "\<exists>g' tid novelty info s'.
     process_ISM last ''chr1'' [100, 200, 300, 400, 500, 590] ''+'' [5, 6, 7] [2, 3, 4, 5]
        [ism_t1, ism_t2] Map.empty Map.empty ex_run_info ism_state
       = Inr ((Some g', Some tid, novelty, info), s')
     \<and> (tid, ''TALON'', ''TALON'', ''ISM_transcript'', ''TRUE'') \<in> set novelty
     \<and> (tid, ''TALON'', ''TALON'', ''ISM_to_IDs'', ''42'') \<in> set novelty
     \<and> (tid, ''TALON'', ''TALON'', ''ISM-prefix_transcript'', ''TRUE'') \<in> set novelty
     \<and> (\<exists>ids. (tid, ''TALON'', ''TALON'', ''ISM-prefix_to_IDs'', join '','' ids) \<in> set novelty
             \<and> ''42'' \<in> set ids)"
proof -
  have len: "length [100, 200, 300, 400, 500, 590 :: int] \<ge> 4" by simp
  have vs: "[2, 3, 4, 5 :: int] \<noteq> []" by simp
  have strand: "''+'' = ''+'' \<or> ''+'' = ''-''" by simp
  have choose: "ism_choose_gene last ''chr1'' [100, 200, 300, 400, 500, 590] ''+''
                  [ism_t1, ism_t2] ism_state = Inr (Some 7, [ism_t1])"
    by code_simp
  have paths: "\<forall>m\<in>set [ism_t1]. jn_path m \<noteq> None" by (simp add: ism_t1_def)
  have es: "''5,6,7'' = join '','' (map str_int [5, 6, 7])" by code_simp
  have pre: "prefix ''5,6,7'' (the (jn_path ism_t1))" by code_simp
  have id: "str_int (transcript_ID ism_t1) = ''42''" by code_simp
  have ri: "idprefix ex_run_info = ''TALON''" by (simp add: ex_run_info_def)
  from process_ISM_labels[OF len vs strand choose paths es, of Map.empty Map.empty ex_run_info]
  obtain g' tid novelty info s' where r:
    "process_ISM last ''chr1'' [100, 200, 300, 400, 500, 590] ''+'' [5, 6, 7] [2, 3, 4, 5]
        [ism_t1, ism_t2] Map.empty Map.empty ex_run_info ism_state
       = Inr ((Some g', Some tid, novelty, info), s')"
    "(tid, idprefix ex_run_info, ''TALON'', ''ISM_transcript'', ''TRUE'') \<in> set novelty"
    "(tid, idprefix ex_run_info, ''TALON'', ''ISM_to_IDs'',
        join '','' (map (\<lambda>m. str_int (transcript_ID m)) [ism_t1])) \<in> set novelty"
    "\<forall>m\<in>set [ism_t1]. prefix ''5,6,7'' (the (jn_path m)) \<longrightarrow>
             (tid, idprefix ex_run_info, ''TALON'', ''ISM-prefix_transcript'', ''TRUE'') \<in> set novelty
           \<and> (\<exists>ids. (tid, idprefix ex_run_info, ''TALON'', ''ISM-prefix_to_IDs'', join '','' ids) \<in> set novelty
                   \<and> str_int (transcript_ID m) \<in> set ids)"
    by blast
  from r(4) pre have p: "(tid, idprefix ex_run_info, ''TALON'', ''ISM-prefix_transcript'', ''TRUE'') \<in> set novelty
           \<and> (\<exists>ids. (tid, idprefix ex_run_info, ''TALON'', ''ISM-prefix_to_IDs'', join '','' ids) \<in> set novelty
                   \<and> str_int (transcript_ID ism_t1) \<in> set ids)"
    by simp
  from r(3) have q: "(tid, idprefix ex_run_info, ''TALON'', ''ISM_to_IDs'', ''42'') \<in> set novelty"
    by (simp add: id)
  show ?thesis
    using r(1) r(2) p q unfolding id ri by blast
qed

subsection \<open>The integrity check and the commit\<close>

lemma integrity_loop_pass:
  "integrity_loop db cs (fail, log) = ((False, log'), None) \<Longrightarrow>
     \<not> fail \<and> (\<forall>(c, n)\<in>set cs. \<exists>rows. tables db (table_of c) = Some rows \<and> int (length rows) = n)"
proof (induction cs arbitrary: fail log)
  case Nil
  then show ?case by simp
next
  case (Cons p cs)
  obtain c n where p: "p = (c, n)" by force
  show ?case
  proof (cases "tables db (table_of c)")
    case None
    with Cons.prems p show ?thesis by simp
  next
    case (Some rows)
    show ?thesis
    proof (cases "int (length rows) \<noteq> n")
      case True
      with Cons.prems p Some
      have "integrity_loop db cs (True, log @ [mismatch_msg (table_of c)]) = ((False, log'), None)"
        by simp
      from Cons.IH[OF this] show ?thesis by simp
    next
      case False
      with Cons.prems p Some have "integrity_loop db cs (fail, log) = ((False, log'), None)"
        by simp
      from Cons.IH[OF this] False Some p show ?thesis by simp
    qed
  qed
qed

lemma integrity_loop_keeps:
  "\<exists>fail' log' e. integrity_loop db cs (fail, log) = ((fail', log'), e)
       \<and> (fail \<longrightarrow> fail') \<and> set log \<subseteq> set log'
       \<and> (all_present db cs \<longrightarrow> e = None)"
proof (induction cs arbitrary: fail log)
  case Nil
  then show ?case by (simp add: all_present_def)
next
  case (Cons q cs)
  obtain c1 n1 where q: "q = (c1, n1)" by force
  show ?case
  proof (cases "tables db (table_of c1)")
    case None
    then show ?thesis using q by (simp add: all_present_def)
  next
    case (Some rs)
    show ?thesis
    proof (cases "int (length rs) \<noteq> n1")
      case True
      from Cons.IH[of True "log @ [mismatch_msg (table_of c1)]"]
      obtain fail' log' e where r:
        "integrity_loop db cs (True, log @ [mismatch_msg (table_of c1)]) = ((fail', log'), e)"
        "fail'" "set (log @ [mismatch_msg (table_of c1)]) \<subseteq> set log'"
        "all_present db cs \<longrightarrow> e = None" by blast
      have step: "integrity_loop db (q # cs) (fail, log) = ((fail', log'), e)"
        using q Some True r(1) by simp
      have "set log \<subseteq> set log'" using r(3) by auto
      moreover have "all_present db (q # cs) \<longrightarrow> e = None"
        using r(4) by (simp add: all_present_def)
      ultimately show ?thesis using step r(2) by blast
    next
      case False
      from Cons.IH[of fail log]
      obtain fail' log' e where r:
        "integrity_loop db cs (fail, log) = ((fail', log'), e)"
        "fail \<longrightarrow> fail'" "set log \<subseteq> set log'"
        "all_present db cs \<longrightarrow> e = None" by blast
      have step: "integrity_loop db (q # cs) (fail, log) = ((fail', log'), e)"
        using q Some False r(1) by simp
      have "all_present db (q # cs) \<longrightarrow> e = None"
        using r(4) by (simp add: all_present_def)
      then show ?thesis using step r(2,3) by blast
    qed
  qed
qed

lemma integrity_loop_fail:
  assumes "(c, n) \<in> set cs" and "tables db (table_of c) = Some rows" and "int (length rows) \<noteq> n"
  shows "\<exists>fail' log' e. integrity_loop db cs (fail, log) = ((fail', log'), e)
           \<and> (e = None \<longrightarrow> fail' \<and> mismatch_msg (table_of c) \<in> set log')
           \<and> (all_present db cs \<longrightarrow> e = None)"
  using assms(1)
proof (induction cs arbitrary: fail log)
  case Nil
  then show ?case by simp
next
  case (Cons p cs)
  obtain c0 n0 where p: "p = (c0, n0)" by force
  show ?case
  proof (cases "tables db (table_of c0)")
    case None
    then show ?thesis using p by (simp add: all_present_def)
  next
    case (Some rs)
    have ap: "all_present db (p # cs) \<longrightarrow> all_present db cs" by (simp add: all_present_def)
    show ?thesis
    proof (cases "p = (c, n)")
      case True
      with p Some assms(2,3) have step: "integrity_loop db (p # cs) (fail, log)
          = integrity_loop db cs (True, log @ [mismatch_msg (table_of c)])" by auto
      from integrity_loop_keeps[of db cs True "log @ [mismatch_msg (table_of c)]"]
      obtain fail' log' e where r:
        "integrity_loop db cs (True, log @ [mismatch_msg (table_of c)]) = ((fail', log'), e)"
        "fail'" "set (log @ [mismatch_msg (table_of c)]) \<subseteq> set log'"
        "all_present db cs \<longrightarrow> e = None" by blast
      have "mismatch_msg (table_of c) \<in> set log'" using r(3) by auto
      then show ?thesis unfolding step using r(1,2,4) ap by blast
    next
      case False
      with Cons.prems have inn: "(c, n) \<in> set cs" by simp
      show ?thesis
      proof (cases "int (length rs) \<noteq> n0")
        case True
        from Cons.IH[OF inn, of True "log @ [mismatch_msg (table_of c0)]"]
        obtain fail' log' e where r:
          "integrity_loop db cs (True, log @ [mismatch_msg (table_of c0)]) = ((fail', log'), e)"
          "e = None \<longrightarrow> fail' \<and> mismatch_msg (table_of c) \<in> set log'"
          "all_present db cs \<longrightarrow> e = None" by blast
        have step: "integrity_loop db (p # cs) (fail, log) = ((fail', log'), e)"
          using p Some True r(1) by simp
        show ?thesis using step r(2,3) ap by blast
      next
        case F: False
        from Cons.IH[OF inn, of fail log]
        obtain fail' log' e where r:
          "integrity_loop db cs (fail, log) = ((fail', log'), e)"
          "e = None \<longrightarrow> fail' \<and> mismatch_msg (table_of c) \<in> set log'"
          "all_present db cs \<longrightarrow> e = None" by blast
        have step: "integrity_loop db (p # cs) (fail, log) = ((fail', log'), e)"
          using p Some F r(1) by simp
        show ?thesis using step r(2,3) ap by blast
      qed
    qed
  qed
qed

lemma check_pass:
  assumes "check_database_integrity w = (log, None)"
  shows "\<forall>(c, n)\<in>set (counters w). \<exists>rows. tables w (table_of c) = Some rows \<and> int (length rows) = n"
proof -
  obtain fail l e where r: "integrity_loop w (counters w) (False, []) = ((fail, l), e)"
    by (metis prod.exhaust)
  from assms r have "e = None \<and> \<not> fail"
    by (cases e) (auto simp: check_database_integrity_def split: if_splits)
  with r integrity_loop_pass[of w "counters w" False "[]" l] show ?thesis by simp
qed

lemma check_fail:
  assumes "(c, n) \<in> set (counters w)" and "tables w (table_of c) = Some rows"
    and "int (length rows) \<noteq> n"
  shows "\<exists>log e. check_database_integrity w = (log, Some e)
           \<and> (all_present w (counters w) \<longrightarrow>
                e = RuntimeError \<and> mismatch_msg (table_of c) \<in> set log \<and> discrepancy_msg \<in> set log)"
proof -
  from integrity_loop_fail[OF assms, of False "[]"]
  obtain fail' log' e where r:
    "integrity_loop w (counters w) (False, []) = ((fail', log'), e)"
    "e = None \<longrightarrow> fail' \<and> mismatch_msg (table_of c) \<in> set log'"
    "all_present w (counters w) \<longrightarrow> e = None" by blast
  show ?thesis
  proof (cases e)
    case None
    with r have "check_database_integrity w = (log' @ [discrepancy_msg], Some RuntimeError)"
      by (simp add: check_database_integrity_def)
    with r(2) None show ?thesis by simp
  next
    case (Some x)
    with r have "check_database_integrity w = (log', Some x)"
      by (simp add: check_database_integrity_def)
    with r(3) Some show ?thesis by simp
  qed
qed

subsection \<open>The listener's timeout\<close>

lemma listener_loop_stop:
  assumes "now > w \<or> v = ''complete''" and "now' > w \<or> v' = ''complete''"
  shows "listener_loop w opened (pre @ (now, f, v) # post) fs
       = listener_loop w opened (pre @ [(now', f', v')]) fs"
proof (induction pre arbitrary: fs)
  case Nil
  from assms show ?case by auto
next
  case (Cons e pre)
  obtain a b c where e: "e = (a, b, c)" by (metis prod_cases3)
  have "listener_loop w opened ((a, b, c) # (pre @ (now, f, v) # post)) fs
      = listener_loop w opened ((a, b, c) # (pre @ [(now', f', v')])) fs"
    by (simp only: listener_loop.simps Cons.IH)
  then show ?case unfolding e by simp
qed

text \<open>
  C7. Whenever \<open>update_database\<close> commits, the committed store is the new persistent
  store and, for every row of \<open>counters\<close>, the table it names (\<open>location\<close> for
  \<open>vertex\<close>) has exactly as many rows as the counter says. Whenever the load has
  finished and the row count of some table differs from its counter, \<open>update_database\<close>
  ends with an exception and without a commit, so the persistent store is the one from
  before the run; and, when every counted table exists, the exception is the RuntimeError
  and the error log holds the line \<open>Database counter for '...' does not match the number of
  entries in the table. Discarding changes to database and exiting...\<close> with the name of
  the table that failed between the quotes, and the line \<open>Discrepancy found in database.
  Discarding changes to database and exiting...\<close>.
\<close>

theorem update_database_counter_parity:
  "(\<forall>log db'. update_database ins db bs files ds cv = Some (log, Inr db') \<longrightarrow>
       store_after db (update_database ins db bs files ds cv) = db'
       \<and> (\<forall>(c, n)\<in>set (counters db').
            \<exists>rows. tables db' (if c = ''vertex'' then ''location'' else c) = Some rows
                  \<and> int (length rows) = n))
   \<and> (\<forall>w c n rows.
         load_all ins db bs files ds cv = Some (Inr w) \<and> (c, n) \<in> set (counters w)
         \<and> tables w (if c = ''vertex'' then ''location'' else c) = Some rows
         \<and> int (length rows) \<noteq> n \<longrightarrow>
       (\<exists>log e. update_database ins db bs files ds cv = Some (log, Inl e)
          \<and> store_after db (update_database ins db bs files ds cv) = db
          \<and> (all_present w (counters w) \<longrightarrow>
               e = RuntimeError
               \<and> ''Database counter for '' @ [CHR 0x27]
                  @ (if c = ''vertex'' then ''location'' else c) @ [CHR 0x27]
                  @ '' does not match the number of entries in the table.''
                  @ '' Discarding changes to database and exiting...'' \<in> set log
               \<and> ''Discrepancy found in database. Discarding changes to database and exiting...''
                  \<in> set log)))"
proof (intro conjI allI impI)
  fix log db'
  assume u: "update_database ins db bs files ds cv = Some (log, Inr db')"
  then show "store_after db (update_database ins db bs files ds cv) = db'"
    by (simp add: store_after_def)
  from u obtain w where w: "load_all ins db bs files ds cv = Some (Inr w)"
    by (auto simp: update_database_def split: option.splits sum.splits)
  obtain l e where c: "check_database_integrity w = (l, e)" by force
  from u w c have "e = None \<and> db' = w \<and> l = log"
    by (cases e) (auto simp: update_database_def)
  with c check_pass[of w log]
  show "\<forall>(c, n)\<in>set (counters db').
            \<exists>rows. tables db' (if c = ''vertex'' then ''location'' else c) = Some rows
                  \<and> int (length rows) = n"
    unfolding table_of_def by simp
next
  fix w c n rows
  assume a: "load_all ins db bs files ds cv = Some (Inr w) \<and> (c, n) \<in> set (counters w)
         \<and> tables w (if c = ''vertex'' then ''location'' else c) = Some rows
         \<and> int (length rows) \<noteq> n"
  then have a1: "(c, n) \<in> set (counters w)" and a2: "tables w (table_of c) = Some rows"
    and a3: "int (length rows) \<noteq> n"
    by (simp_all add: table_of_def)
  from check_fail[OF a1 a2 a3] obtain log e where r:
    "check_database_integrity w = (log, Some e)"
    "all_present w (counters w) \<longrightarrow>
        e = RuntimeError \<and> mismatch_msg (table_of c) \<in> set log \<and> discrepancy_msg \<in> set log"
    by blast
  from a r(1) have u: "update_database ins db bs files ds cv = Some (log, Inl e)"
    by (simp add: update_database_def)
  then have st: "store_after db (update_database ins db bs files ds cv) = db"
    by (simp add: store_after_def)
  note r2 = r(2)[unfolded mismatch_msg_def table_of_def discrepancy_msg_def]
  have "update_database ins db bs files ds cv = Some (log, Inl e)
          \<and> store_after db (update_database ins db bs files ds cv) = db
          \<and> (all_present w (counters w) \<longrightarrow>
               e = RuntimeError
               \<and> ''Database counter for '' @ [CHR 0x27]
                  @ (if c = ''vertex'' then ''location'' else c) @ [CHR 0x27]
                  @ '' does not match the number of entries in the table.''
                  @ '' Discarding changes to database and exiting...'' \<in> set log
               \<and> ''Discrepancy found in database. Discarding changes to database and exiting...''
                  \<in> set log)"
    using u st r2 by simp
  then show "\<exists>log e. update_database ins db bs files ds cv = Some (log, Inl e)
          \<and> store_after db (update_database ins db bs files ds cv) = db
          \<and> (all_present w (counters w) \<longrightarrow>
               e = RuntimeError
               \<and> ''Database counter for '' @ [CHR 0x27]
                  @ (if c = ''vertex'' then ''location'' else c) @ [CHR 0x27]
                  @ '' does not match the number of entries in the table.''
                  @ '' Discarding changes to database and exiting...'' \<in> set log
               \<and> ''Discrepancy found in database. Discarding changes to database and exiting...''
                  \<in> set log)"
    by (rule_tac x = log in exI, rule_tac x = e in exI)
qed

text \<open>
  The store holds one gene. The run loads the line of a second gene, the line of a first
  vertex and one dataset. With final counters of 1 gene and 0 vertices the run is refused
  with the RuntimeError, the log names \<open>genes\<close> and \<open>location\<close>, and the store stays as it
  was; with final counters of 2 genes, 1 vertex and 1 dataset the run commits the three
  new rows.
\<close>

theorem update_database_counter_parity_witness:
  "(\<exists>log. update_database append_insert db_ex 10000 loaded_files [ex_dataset] cv_run
             = Some (log, Inl RuntimeError)
          \<and> ''Database counter for '' @ [CHR 0x27] @ ''genes'' @ [CHR 0x27]
             @ '' does not match the number of entries in the table.''
             @ '' Discarding changes to database and exiting...'' \<in> set log
          \<and> ''Database counter for '' @ [CHR 0x27] @ ''location'' @ [CHR 0x27]
             @ '' does not match the number of entries in the table.''
             @ '' Discarding changes to database and exiting...'' \<in> set log
          \<and> ''Discrepancy found in database. Discarding changes to database and exiting...''
             \<in> set log)
   \<and> store_after db_ex (update_database append_insert db_ex 10000 loaded_files [ex_dataset] cv_run)
       = db_ex
   \<and> (\<exists>log db'. update_database append_insert db_ex 10000 loaded_files [ex_dataset] cv_loaded
             = Some (log, Inr db')
          \<and> store_after db_ex
               (update_database append_insert db_ex 10000 loaded_files [ex_dataset] cv_loaded) = db'
          \<and> tables db' ''genes'' = Some [[SqlInt 1, SqlText ''+''], [SqlText ''2'', SqlText ''+'']]
          \<and> tables db' ''location''
              = Some [[SqlText ''1'', SqlText ''hg38'', SqlText ''chr1'', SqlText ''100'']]
          \<and> tables db' ''dataset'' = Some [ex_dataset]
          \<and> counters db' = [(''genes'', 2), (''transcripts'', 0), (''vertex'', 1), (''edge'', 0),
                             (''dataset'', 1), (''observed'', 0)])"
proof -
  note thm_bad = update_database_counter_parity[of append_insert db_ex 10000 loaded_files
      "[ex_dataset]" cv_run, THEN conjunct2]
  have "(case load_all append_insert db_ex 10000 loaded_files [ex_dataset] cv_run of
           Some (Inr w) \<Rightarrow>
             (''genes'', 1) \<in> set (counters w) \<and> (''vertex'', 0) \<in> set (counters w)
             \<and> tables w ''genes'' = Some [[SqlInt 1, SqlText ''+''], [SqlText ''2'', SqlText ''+'']]
             \<and> tables w ''location''
                 = Some [[SqlText ''1'', SqlText ''hg38'', SqlText ''chr1'', SqlText ''100'']]
             \<and> all_present w (counters w)
         | _ \<Rightarrow> False)"
    by code_simp
  then obtain w where load: "load_all append_insert db_ex 10000 loaded_files [ex_dataset] cv_run
        = Some (Inr w)"
    and cg: "(''genes'', 1) \<in> set (counters w)" and cl: "(''vertex'', 0) \<in> set (counters w)"
    and tg: "tables w ''genes'' = Some [[SqlInt 1, SqlText ''+''], [SqlText ''2'', SqlText ''+'']]"
    and tl: "tables w ''location''
                 = Some [[SqlText ''1'', SqlText ''hg38'', SqlText ''chr1'', SqlText ''100'']]"
    and pres: "all_present w (counters w)"
    by (auto split: option.splits sum.splits)
  from thm_bad[THEN spec, THEN spec, THEN spec, THEN spec, THEN mp,
      of w "''genes''" 1 "[[SqlInt 1, SqlText ''+''], [SqlText ''2'', SqlText ''+'']]"]
    load cg tg pres
  obtain log e where bad:
    "update_database append_insert db_ex 10000 loaded_files [ex_dataset] cv_run = Some (log, Inl e)"
    "store_after db_ex (update_database append_insert db_ex 10000 loaded_files [ex_dataset] cv_run)
       = db_ex"
    "e = RuntimeError"
    "''Database counter for '' @ [CHR 0x27] @ ''genes'' @ [CHR 0x27]
       @ '' does not match the number of entries in the table.''
       @ '' Discarding changes to database and exiting...'' \<in> set log"
    "''Discrepancy found in database. Discarding changes to database and exiting...'' \<in> set log"
    by auto
  from thm_bad[THEN spec, THEN spec, THEN spec, THEN spec, THEN mp,
      of w "''vertex''" 0 "[[SqlText ''1'', SqlText ''hg38'', SqlText ''chr1'', SqlText ''100'']]"]
    load cl tl pres bad(1)
  have loc: "''Database counter for '' @ [CHR 0x27] @ ''location'' @ [CHR 0x27]
       @ '' does not match the number of entries in the table.''
       @ '' Discarding changes to database and exiting...'' \<in> set log"
    by auto
  define u where "u = update_database append_insert db_ex 10000 loaded_files [ex_dataset] cv_loaded"
  have ev: "(case u of
           Some (log, Inr db') \<Rightarrow>
             tables db' ''genes'' = Some [[SqlInt 1, SqlText ''+''], [SqlText ''2'', SqlText ''+'']]
             \<and> tables db' ''location''
                 = Some [[SqlText ''1'', SqlText ''hg38'', SqlText ''chr1'', SqlText ''100'']]
             \<and> tables db' ''dataset'' = Some [ex_dataset]
             \<and> counters db' = [(''genes'', 2), (''transcripts'', 0), (''vertex'', 1), (''edge'', 0),
                                (''dataset'', 1), (''observed'', 0)]
         | _ \<Rightarrow> False)"
    unfolding u_def by code_simp
  from ev obtain r where ur: "u = Some r" by (cases u) simp_all
  obtain log2 x where r: "r = (log2, x)" by (cases r)
  from ev ur r obtain db' where x: "x = Inr db'" by (cases x) simp_all
  from ur r x have ok:
    "update_database append_insert db_ex 10000 loaded_files [ex_dataset] cv_loaded
       = Some (log2, Inr db')"
    unfolding u_def by simp
  from ev ur r x have tabs:
      "tables db' ''genes'' = Some [[SqlInt 1, SqlText ''+''], [SqlText ''2'', SqlText ''+'']]"
      "tables db' ''location''
          = Some [[SqlText ''1'', SqlText ''hg38'', SqlText ''chr1'', SqlText ''100'']]"
      "tables db' ''dataset'' = Some [ex_dataset]"
      "counters db' = [(''genes'', 2), (''transcripts'', 0), (''vertex'', 1), (''edge'', 0),
                       (''dataset'', 1), (''observed'', 0)]"
    by simp_all
  note p = update_database_counter_parity[of append_insert db_ex 10000 loaded_files
      "[ex_dataset]" cv_loaded, THEN conjunct1, THEN spec, THEN spec, THEN mp, OF ok]
  note st = p[THEN conjunct1]
  have A: "\<exists>log. update_database append_insert db_ex 10000 loaded_files [ex_dataset] cv_run
             = Some (log, Inl RuntimeError)
          \<and> ''Database counter for '' @ [CHR 0x27] @ ''genes'' @ [CHR 0x27]
             @ '' does not match the number of entries in the table.''
             @ '' Discarding changes to database and exiting...'' \<in> set log
          \<and> ''Database counter for '' @ [CHR 0x27] @ ''location'' @ [CHR 0x27]
             @ '' does not match the number of entries in the table.''
             @ '' Discarding changes to database and exiting...'' \<in> set log
          \<and> ''Discrepancy found in database. Discarding changes to database and exiting...''
             \<in> set log"
    using bad(1,3,4,5) loc by (rule_tac x = log in exI) simp
  have C: "\<exists>log db'. update_database append_insert db_ex 10000 loaded_files [ex_dataset] cv_loaded
             = Some (log, Inr db')
          \<and> store_after db_ex
               (update_database append_insert db_ex 10000 loaded_files [ex_dataset] cv_loaded) = db'
          \<and> tables db' ''genes'' = Some [[SqlInt 1, SqlText ''+''], [SqlText ''2'', SqlText ''+'']]
          \<and> tables db' ''location''
              = Some [[SqlText ''1'', SqlText ''hg38'', SqlText ''chr1'', SqlText ''100'']]
          \<and> tables db' ''dataset'' = Some [ex_dataset]
          \<and> counters db' = [(''genes'', 2), (''transcripts'', 0), (''vertex'', 1), (''edge'', 0),
                             (''dataset'', 1), (''observed'', 0)]"
    using ok st tabs by (rule_tac x = log2 in exI, rule_tac x = db' in exI) simp
  from A bad(2) C show ?thesis by (intro conjI)
qed

text \<open>
  C8, amended. When the timeout has elapsed at the moment the listener tests a message,
  the listener drops that message and every later one, closes the files and returns, as
  it does on \<open>complete\<close>: it leaves the files exactly as if \<open>complete\<close> had arrived in
  place of that message. \<open>main\<close> does not learn of it and calls \<open>update_database\<close> all
  the same, so the whole run ends as the run in which the workers sent only the earlier
  messages: with the batch commit, if the integrity check passes.
\<close>

theorem timeout_ends_run_like_complete:
  assumes "now > start + 3600 * timeout"
  shows "listener out h start timeout (pre @ (now, f, v) # post) fs
           = listener out h start timeout (pre @ [(t_complete, None, ''complete'')]) fs
       \<and> main_run ins db fs out h start timeout (pre @ (now, f, v) # post) t_complete ds cv
           = main_run ins db fs out h start timeout pre t_complete ds cv"
proof -
  have a: "\<And>post' fs'. listener_loop (start + 3600 * timeout) (outfile_values out)
               (pre @ (now, f, v) # post') fs'
           = listener_loop (start + 3600 * timeout) (outfile_values out)
               (pre @ [(t_complete, None, ''complete'')]) fs'"
    using listener_loop_stop[of "start + 3600 * timeout" now v t_complete "''complete''"] assms
    by simp
  have l1: "listener out h start timeout (pre @ (now, f, v) # post) fs
           = listener out h start timeout (pre @ [(t_complete, None, ''complete'')]) fs"
    unfolding listener_def Let_def by (rule a)
  have l2: "listener out h start timeout ((pre @ (now, f, v) # post) @ [(t_complete, None, ''complete'')]) fs
           = listener out h start timeout (pre @ [(t_complete, None, ''complete'')]) fs"
    unfolding listener_def Let_def using a[of "post @ [(t_complete, None, ''complete'')]"] by simp
  show ?thesis using l1 l2 by (simp add: main_run_def)
qed

text \<open>
  C8, as the specification states it, fails on the code. The timeout of 72 hours (259200
  seconds) has elapsed when the second message, not \<open>complete\<close>, is received at second
  259201; the run is not aborted: \<open>update_database\<close> commits, and the persistent store
  gains the dataset row.
\<close>

theorem timeout_commits_counterexample:
  "259201 > (0::int) + 3600 * 72
   \<and> committed (main_run append_insert db_ex Map.empty ex_outfiles ''header'' 0 72
      [(10, Some ''talon_QC.log'', ''d1 read1 pass''), (259201, Some ''talon_QC.log'', ''d1 read2 fail'')]
      259300 [ex_dataset] cv_run)
   \<and> map_option length (tables db_ex ''dataset'') = Some 0
   \<and> map_option length (tables (store_after db_ex
        (main_run append_insert db_ex Map.empty ex_outfiles ''header'' 0 72
          [(10, Some ''talon_QC.log'', ''d1 read1 pass''), (259201, Some ''talon_QC.log'', ''d1 read2 fail'')]
          259300 [ex_dataset] cv_run)) ''dataset'') = Some 1"
proof -
  have a: "259201 > (0::int) + 3600 * 72" by simp
  have b: "committed (main_run append_insert db_ex Map.empty ex_outfiles ''header'' 0 72
      [(10, Some ''talon_QC.log'', ''d1 read1 pass''), (259201, Some ''talon_QC.log'', ''d1 read2 fail'')]
      259300 [ex_dataset] cv_run)"
    by code_simp
  have c: "map_option length (tables db_ex ''dataset'') = Some 0" by code_simp
  have d: "map_option length (tables (store_after db_ex
        (main_run append_insert db_ex Map.empty ex_outfiles ''header'' 0 72
          [(10, Some ''talon_QC.log'', ''d1 read1 pass''), (259201, Some ''talon_QC.log'', ''d1 read2 fail'')]
          259300 [ex_dataset] cv_run)) ''dataset'') = Some 1"
    by code_simp
  from a b c d show ?thesis by blast
qed

text \<open>A run cut by the timeout, with a gene row sent after it, ends as the run without both.\<close>

theorem timeout_ends_run_like_complete_witness:
  "main_run append_insert db_ex Map.empty ex_outfiles ''header'' 0 72
      ([(10, Some ''talon_QC.log'', ''d1 read1 pass'')] @ (259201, Some ''talon_QC.log'', ''d1 read2 fail'')
        # [(259250, Some ''tmp/gene_tuples.tsv'', ''2'' @ [CHR 0x09] @ ''+'')]) 259300 [ex_dataset] cv_run
   = main_run append_insert db_ex Map.empty ex_outfiles ''header'' 0 72
      [(10, Some ''talon_QC.log'', ''d1 read1 pass'')] 259300 [ex_dataset] cv_run"
proof -
  have t: "259201 > (0::int) + 3600 * 72" by simp
  from timeout_ends_run_like_complete[OF t] show ?thesis by blast
qed

end
